theory Spec2Isabelle
  imports Main "HOL-Library.Word" "HOL-Library.AList"
begin

section \<open>The exec transport: inbound frame demultiplexer\<close>

text \<open>
  \<^verbatim>\<open>demuxStream\<close> (src/app/actions.js) reads the upgraded socket in paused mode. On
  every \<^verbatim>\<open>readable\<close> event it takes an 8-byte header with \<^verbatim>\<open>stream.read(8)\<close>, then the
  payload with \<^verbatim>\<open>stream.read(header.readUInt32BE(4))\<close>, hands the payload to stderr when
  the first header byte is 2 and to stdout otherwise, and goes on with the next header.
  The variable \<^verbatim>\<open>header\<close> lives across events; the bytes not yet consumed stay in the
  stream's internal buffer.

  Bytes are 8-bit words and a Buffer is a list of bytes. The Buffer accessors throw a
  RangeError when the offset does not fit the buffer: the \<open>Inl\<close> branch.
\<close>

type_synonym byte = "8 word"

type_synonym buffer = "byte list"

datatype js_error = RangeError | TypeError

definition readUInt8 :: "buffer \<Rightarrow> nat \<Rightarrow> js_error + nat" where
  "readUInt8 b off = (if off + 1 \<le> length b then Inr (unat (b ! off)) else Inl RangeError)"

definition readUInt32BE :: "buffer \<Rightarrow> nat \<Rightarrow> js_error + nat" where
  "readUInt32BE b off =
     (if off + 4 \<le> length b
      then Inr (unat (b ! off) * 2 ^ 24 + unat (b ! (off + 1)) * 2 ^ 16
                + unat (b ! (off + 2)) * 2 ^ 8 + unat (b ! (off + 3)))
      else Inl RangeError)"

text \<open>
  The readable side of the socket: the bytes buffered, and whether the end of the stream
  has been seen. \<open>stream_read n\<close> is Node's \<^verbatim>\<open>readable.read(n)\<close> on a byte stream:
  \<^verbatim>\<open>read(0)\<close> consumes nothing and returns null; when \<open>n\<close> bytes are buffered, they are
  returned; when fewer are buffered the call returns null, unless the stream has ended,
  in which case all that is left is returned.
\<close>

record readable =
  buffered :: buffer
  ended :: bool

definition stream_read :: "nat \<Rightarrow> readable \<Rightarrow> buffer option \<times> readable" where
  "stream_read n s =
     (if n = 0 then (None, s)
      else if n \<le> length (buffered s)
        then (Some (take n (buffered s)), s\<lparr>buffered := drop n (buffered s)\<rparr>)
      else if ended s \<and> buffered s \<noteq> []
        then (Some (buffered s), s\<lparr>buffered := []\<rparr>)
      else (None, s))"

text \<open>The two local output streams; an output call is the stream and the bytes handed to it.\<close>

datatype fd = Stdout | Stderr

type_synonym write_call = "fd \<times> buffer"

text \<open>
  The \<^verbatim>\<open>while (header !== null)\<close> loop of the handler. It is left with the header kept
  when the payload is not available (\<^verbatim>\<open>break\<close>), and with no header when the next
  header is not available. An iteration that goes round has consumed at least one byte,
  which is the termination argument.
\<close>

lemma stream_read_shrinks:
  "stream_read n s = (Some p, s') \<Longrightarrow> length (buffered s') < length (buffered s)"
  by (auto simp: stream_read_def split: if_splits)

lemma stream_read_le:
  "stream_read n s = (r, s') \<Longrightarrow> length (buffered s') \<le> length (buffered s)"
  by (auto simp: stream_read_def split: if_splits)

lemma demux_loop_measure:
  "(Some p, y) = stream_read n s \<Longrightarrow> (h', s') = stream_read 8 y
     \<Longrightarrow> length (buffered s') < length (buffered s)"
  using stream_read_shrinks [of n s p y] stream_read_le [of 8 y h' s'] by simp

function demux_loop ::
  "buffer option \<Rightarrow> readable \<Rightarrow> write_call list
     \<Rightarrow> js_error + (buffer option \<times> readable \<times> write_call list)" where
  "demux_loop None s out = Inr (None, s, out)"
| "demux_loop (Some h) s out =
     (case readUInt8 h 0 of
        Inl e \<Rightarrow> Inl e
      | Inr ty \<Rightarrow>
          (case readUInt32BE h 4 of
             Inl e \<Rightarrow> Inl e
           | Inr n \<Rightarrow>
               (case stream_read n s of
                  (None, s') \<Rightarrow> Inr (Some h, s', out)
                | (Some payload, s') \<Rightarrow>
                    (case stream_read 8 s' of
                       (h', s'') \<Rightarrow>
                         demux_loop h' s''
                           (out @ [(if ty = 2 then Stderr else Stdout, payload)])))))"
  by pat_completeness auto
termination
  by (relation "measure (\<lambda>(h, s, out). length (buffered s))")
     (auto elim: demux_loop_measure)

text \<open>
  The state between two events: the closure variable \<^verbatim>\<open>header\<close>, the stream, and the
  output calls made so far, in order. \<open>on_readable\<close> is the event handler:
  \<^verbatim>\<open>header = header || stream.read(8)\<close>, then the loop.
\<close>

record demux_state =
  header :: "buffer option"
  stream :: readable
  writes :: "write_call list"

definition on_readable :: "demux_state \<Rightarrow> js_error + demux_state" where
  "on_readable st =
     (case (case header st of Some h \<Rightarrow> (Some h, stream st) | None \<Rightarrow> stream_read 8 (stream st)) of
        (h, s) \<Rightarrow>
          (case demux_loop h s (writes st) of
             Inl e \<Rightarrow> Inl e
           | Inr (h', s', out') \<Rightarrow> Inr \<lparr>header = h', stream = s', writes = out'\<rparr>))"

text \<open>
  The socket delivers bytes in chunks of its own choosing: \<open>push\<close> appends a chunk to the
  stream's buffer, after which the handler runs. \<open>feed\<close> delivers a list of chunks,
  \<open>on_end\<close> is the last \<^verbatim>\<open>readable\<close> event, emitted when the remote side has closed the
  connection. An exception thrown by the handler is uncaught and ends the process.
  \<open>run_demux\<close> gives the output calls after the chunks, \<open>run_demux_end\<close> those after the
  chunks and the end of the stream.
\<close>

definition push :: "buffer \<Rightarrow> demux_state \<Rightarrow> demux_state" where
  "push c st = st\<lparr>stream := (stream st)\<lparr>buffered := buffered (stream st) @ c\<rparr>\<rparr>"

definition push_eof :: "demux_state \<Rightarrow> demux_state" where
  "push_eof st = st\<lparr>stream := (stream st)\<lparr>ended := True\<rparr>\<rparr>"

definition on_end :: "demux_state \<Rightarrow> js_error + demux_state" where
  "on_end st = on_readable (push_eof st)"

fun feed :: "demux_state \<Rightarrow> buffer list \<Rightarrow> js_error + demux_state" where
  "feed st [] = Inr st"
| "feed st (c # cs) =
     (case on_readable (push c st) of Inl e \<Rightarrow> Inl e | Inr st' \<Rightarrow> feed st' cs)"

definition demux_init :: demux_state where
  "demux_init = \<lparr>header = None, stream = \<lparr>buffered = [], ended = False\<rparr>, writes = []\<rparr>"

definition feed_end :: "demux_state \<Rightarrow> buffer list \<Rightarrow> js_error + demux_state" where
  "feed_end st cs = (case feed st cs of Inl e \<Rightarrow> Inl e | Inr st' \<Rightarrow> on_end st')"

definition run_demux :: "buffer list \<Rightarrow> js_error + write_call list" where
  "run_demux cs = (case feed demux_init cs of Inl e \<Rightarrow> Inl e | Inr st \<Rightarrow> Inr (writes st))"

definition run_demux_end :: "buffer list \<Rightarrow> js_error + write_call list" where
  "run_demux_end cs =
     (case feed_end demux_init cs of Inl e \<Rightarrow> Inl e | Inr st \<Rightarrow> Inr (writes st))"

text \<open>
  A frame on the wire is a header followed by a payload. It is well formed when the header
  has 8 bytes and the length the handler reads from it is the length of the payload; it is
  a data frame when the payload is not empty. \<open>route\<close> is the output call the handler
  makes for a frame, \<open>delivered\<close> the bytes handed to one output stream.
\<close>

type_synonym frame = "buffer \<times> buffer"

definition wf_frame :: "frame \<Rightarrow> bool" where
  "wf_frame f = (length (fst f) = 8 \<and> readUInt32BE (fst f) 4 = Inr (length (snd f)))"

definition data_frame :: "frame \<Rightarrow> bool" where
  "data_frame f = (snd f \<noteq> [])"

definition frames_bytes :: "frame list \<Rightarrow> buffer" where
  "frames_bytes fs = concat (map (\<lambda>f. fst f @ snd f) fs)"

definition route :: "frame \<Rightarrow> write_call" where
  "route f = (if readUInt8 (fst f) 0 = Inr 2 then Stderr else Stdout, snd f)"

definition delivered :: "fd \<Rightarrow> write_call list \<Rightarrow> buffer" where
  "delivered d ws = concat (map snd (filter (\<lambda>w. fst w = d) ws))"

text \<open>
  Vocabulary of the proofs: the handler as a function of header, stream and output; a
  stream with with_more bytes appended; and the invariant of the states between events while
  the stream is open.
\<close>

definition resume ::
  "buffer option \<Rightarrow> readable \<Rightarrow> write_call list
     \<Rightarrow> js_error + (buffer option \<times> readable \<times> write_call list)" where
  "resume h s out =
     (case (case h of Some hh \<Rightarrow> (Some hh, s) | None \<Rightarrow> stream_read 8 s) of
        (h1, s1) \<Rightarrow> demux_loop h1 s1 out)"

definition with_more :: "readable \<Rightarrow> buffer \<Rightarrow> readable" where
  "with_more s c = s\<lparr>buffered := buffered s @ c\<rparr>"

definition hdr_ok :: "buffer option \<Rightarrow> bool" where
  "hdr_ok h = (case h of None \<Rightarrow> True | Some hh \<Rightarrow> 8 \<le> length hh)"

definition ready :: "demux_state \<Rightarrow> bool" where
  "ready st = (\<not> ended (stream st) \<and> hdr_ok (header st))"

section \<open>The exec transport: outbound framing\<close>

text \<open>
  In non-TTY mode \<^verbatim>\<open>exec\<close> registers two handlers on the local stdin. The \<^verbatim>\<open>data\<close>
  handler allocates a 4-byte Buffer, stores the chunk's length in it with
  \<^verbatim>\<open>writeUInt32BE\<close> and writes the Buffer and then the chunk to the socket; the
  \<^verbatim>\<open>end\<close> handler writes a 4-byte Buffer holding zero.

  \<open>uint32be v\<close> are the four bytes \<^verbatim>\<open>writeUInt32BE\<close> stores: \<^verbatim>\<open>value >>> 24\<close>,
  \<^verbatim>\<open>value >>> 16\<close>, \<^verbatim>\<open>value >>> 8\<close> and \<^verbatim>\<open>value\<close>, each cut to a byte. The call
  throws a TypeError when the value is above \<^verbatim>\<open>0xffffffff\<close> and a RangeError when the
  four bytes do not fit the Buffer. The content of a new Buffer is not specified; here it
  is zeros, and \<^verbatim>\<open>writeUInt32BE\<close> at offset 0 overwrites all of it.
\<close>

definition uint32be :: "nat \<Rightarrow> buffer" where
  "uint32be v = [of_nat (v div 2 ^ 24), of_nat (v div 2 ^ 16), of_nat (v div 2 ^ 8), of_nat v]"

definition writeUInt32BE :: "nat \<Rightarrow> nat \<Rightarrow> buffer \<Rightarrow> js_error + buffer" where
  "writeUInt32BE v off b =
     (if v > 0xffffffff then Inl TypeError
      else if off + 4 > length b then Inl RangeError
      else Inr (take off b @ uint32be v @ drop (off + 4) b))"

definition new_Buffer :: "nat \<Rightarrow> buffer" where
  "new_Buffer n = replicate n 0"

text \<open>A call on the socket, and the events of the local stdin.\<close>

datatype socket_call = SockWrite buffer | SockEnd

datatype stdin_event = Data buffer | End

definition on_stdin_data :: "buffer \<Rightarrow> js_error + socket_call list" where
  "on_stdin_data d =
     (case writeUInt32BE (length d) 0 (new_Buffer 4) of
        Inl e \<Rightarrow> Inl e
      | Inr buf \<Rightarrow> Inr [SockWrite buf, SockWrite d])"

definition on_stdin_end :: "js_error + socket_call list" where
  "on_stdin_end =
     (case writeUInt32BE 0 0 (new_Buffer 4) of
        Inl e \<Rightarrow> Inl e
      | Inr buf \<Rightarrow> Inr [SockWrite buf])"

text \<open>
  The socket calls made for a sequence of stdin events. An exception thrown by a handler
  is uncaught and ends the process.
\<close>

fun on_stdin :: "stdin_event list \<Rightarrow> js_error + socket_call list" where
  "on_stdin [] = Inr []"
| "on_stdin (ev # evs) =
     (case (case ev of Data d \<Rightarrow> on_stdin_data d | End \<Rightarrow> on_stdin_end) of
        Inl e \<Rightarrow> Inl e
      | Inr calls \<Rightarrow>
          (case on_stdin evs of Inl e \<Rightarrow> Inl e | Inr calls' \<Rightarrow> Inr (calls @ calls')))"

text \<open>The calls for one chunk, and for a list of chunks followed by the end of stdin.\<close>

definition chunk_calls :: "buffer \<Rightarrow> socket_call list" where
  "chunk_calls d = [SockWrite (uint32be (length d)), SockWrite d]"

section \<open>Text helpers\<close>

text \<open>
  The styles of the \<^verbatim>\<open>colors\<close> package wrap a string in ANSI escape codes;
  \<open>decimal\<close> and \<open>decimal_int\<close> are JavaScript's conversion of an integer to a
  string.
\<close>

definition red :: "string \<Rightarrow> string" where
  "red s = CHR 0x1B # ''[31m'' @ s @ CHR 0x1B # ''[39m''"

definition cyan :: "string \<Rightarrow> string" where
  "cyan s = CHR 0x1B # ''[36m'' @ s @ CHR 0x1B # ''[39m''"

definition digit_char :: "nat \<Rightarrow> char" where
  "digit_char d = ''0123456789'' ! d"

fun decimal :: "nat \<Rightarrow> string" where
  "decimal n = (if n < 10 then [digit_char n] else decimal (n div 10) @ [digit_char (n mod 10)])"

declare decimal.simps [simp del]

definition decimal_int :: "int \<Rightarrow> string" where
  "decimal_int i = (if i < 0 then CHR ''-'' # decimal (nat (- i)) else decimal (nat i))"

text \<open>
  \<^verbatim>\<open>util.format(f, ...args)\<close> with every argument already converted to a string: each
  \<^verbatim>\<open>%s\<close> of the format takes the next argument, \<^verbatim>\<open>%%\<close> is a percent sign, and the
  arguments left over are appended, each after a space. No other directive occurs in the
  format strings of the calls modelled here.
\<close>

fun util_format :: "string \<Rightarrow> string list \<Rightarrow> string" where
  "util_format [] args = concat (map (\<lambda>a. CHR '' '' # a) args)"
| "util_format [c] args = c # util_format [] args"
| "util_format (c # d # f) args =
     (if c = CHR ''%'' \<and> d = CHR ''%'' then CHR ''%'' # util_format f args
      else if c = CHR ''%'' \<and> d = CHR ''s'' \<and> args \<noteq> [] then hd args @ util_format f (tl args)
      else c # util_format (d # f) args)"

text \<open>
  \<^verbatim>\<open>String.prototype.split\<close> with a one-character separator, \<^verbatim>\<open>trim\<close> and
  \<^verbatim>\<open>indexOf\<close>. Strings are lists of 8-bit characters, so the white space that \<^verbatim>\<open>trim\<close>
  removes is the part of JavaScript's below 256: tab, line feed, vertical tab, form feed,
  carriage return, space and no-break space.
\<close>

fun js_split :: "char \<Rightarrow> string \<Rightarrow> string list" where
  "js_split c [] = [[]]"
| "js_split c (x # xs) =
     (if x = c then [] # js_split c xs
      else (case js_split c xs of p # ps \<Rightarrow> (x # p) # ps | [] \<Rightarrow> [[x]]))"

definition js_space :: "char \<Rightarrow> bool" where
  "js_space c = (c \<in> {CHR 0x09, CHR 0x0A, CHR 0x0B, CHR 0x0C, CHR 0x0D, CHR 0x20, CHR 0xA0})"

definition trim :: "string \<Rightarrow> string" where
  "trim s = rev (dropWhile js_space (rev (dropWhile js_space s)))"

fun indexOf_from :: "nat \<Rightarrow> string \<Rightarrow> string \<Rightarrow> int" where
  "indexOf_from i sub [] = (if sub = [] then int i else - 1)"
| "indexOf_from i sub (x # xs) =
     (if take (length sub) (x # xs) = sub then int i else indexOf_from (Suc i) sub xs)"

definition indexOf :: "string \<Rightarrow> string \<Rightarrow> int" where
  "indexOf s sub = indexOf_from 0 sub s"

section \<open>The operation pollers\<close>

text \<open>
  Every poller of src/app/actions.js issues a GET through \<^verbatim>\<open>helper.superagentEnd\<close> and
  handles the pair \<^verbatim>\<open>(error, result)\<close> its callback receives. A reply is either an error
  that carries no response (\<^verbatim>\<open>error && !error.response\<close>), or a response with its status
  code, its text and its parsed body. The pollers are driven by the list of replies the
  server gives to the successive polls; when the list is used up the poller has issued its
  request and is waiting.

  What a command does is recorded as a list of effects: a GET of an API path (the
  argument of \<^verbatim>\<open>helper.createUrl\<close>), a \<^verbatim>\<open>process.stdout.write\<close>, a
  \<^verbatim>\<open>console.log\<close>, a \<^verbatim>\<open>console.error\<close>, a \<^verbatim>\<open>setTimeout\<close> with its delay in
  milliseconds, a question put to the user with \<^verbatim>\<open>readlineSync.question\<close>, and the
  upgrade request of \<^verbatim>\<open>exec\<close> with the application id, the command vector and the TTY
  flag it carries. The access token sent with a request is not recorded, nor are the
  terminal's rows and columns.
\<close>

datatype 'b reply = NoResponse string | Response nat string 'b

datatype effect =
    Get string
  | Print string
  | Log string
  | LogError string
  | Timeout nat
  | Ask string
  | Upgrade string "string list" bool

text \<open>
  The error a poller passes to its callback is the transport error itself or a
  \<^verbatim>\<open>new Error(message)\<close>.
\<close>

datatype cb_error = Transport string | Error string

text \<open>
  Modelled from the spec: \<^verbatim>\<open>helper.exit\<close> (src/helper.js is not among the sources).
  Section 7 of the specification has every error terminate the current command with a
  printed message, and the callers rely on it: the statement after a call of \<^verbatim>\<open>exit\<close>
  is written for the case that the call was not made. A call of \<^verbatim>\<open>exit\<close> is therefore
  the last thing a run does, and its arguments are kept as they are passed: strings,
  numbers, error objects, and the value of \<^verbatim>\<open>safe.error\<close>.

  A run ends by calling its callback (with an error or with none), or by calling
  \<^verbatim>\<open>exit\<close>, or with the upgraded socket of \<^verbatim>\<open>exec\<close> (in TTY mode or not), or it is
  still waiting for a reply or for the user.
\<close>

datatype exit_arg = AStr string | ANum nat | AErr cb_error | ASafeError

datatype outcome =
    Called "cb_error option"
  | Exited "exit_arg list"
  | Upgraded bool
  | Waiting

type_synonym run = "effect list \<times> outcome"

definition after :: "effect list \<Rightarrow> run \<Rightarrow> run" where
  "after es r = (es @ fst r, snd r)"

text \<open>
  The application resource and the box progress resource, as far as the pollers read
  them. A progress text and a health are strings or null, a message is a string or
  absent, and the percentage is taken to be a whole number.
\<close>

record app_body =
  installationState :: string
  installationProgress :: "string option"
  health :: "string option"

record backup_progress =
  percent :: int
  message :: "string option"

record progress_body =
  backup :: backup_progress

definition app_path :: "string \<Rightarrow> string" where
  "app_path appId = ''/api/v1/apps/'' @ appId"

definition failed_to_get_app :: "nat \<Rightarrow> string \<Rightarrow> string" where
  "failed_to_get_app status text = util_format (red ''Failed to get app.'') [decimal status, text]"

text \<open>
  \<^verbatim>\<open>waitForHealthy\<close>: the banner, then the first check after one second, and a check every
  second until the body's \<^verbatim>\<open>health\<close> is \<^verbatim>\<open>healthy\<close>.
\<close>

fun health_checkStatus :: "string \<Rightarrow> app_body reply list \<Rightarrow> run" where
  "health_checkStatus appId [] = ([Get (app_path appId)], Waiting)"
| "health_checkStatus appId (NoResponse e # rs) =
     ([Get (app_path appId)], Called (Some (Transport e)))"
| "health_checkStatus appId (Response status text body # rs) =
     (if status \<noteq> 200
        then ([Get (app_path appId)], Called (Some (Error (failed_to_get_app status text))))
      else if health body = Some ''healthy''
        then ([Get (app_path appId)], Called None)
      else after [Get (app_path appId), Print ''.'', Timeout 1000] (health_checkStatus appId rs))"

definition health_banner :: string where
  "health_banner = CHR 0x0A # '' => '' @ cyan ''Wait for health check''"

definition waitForHealthy :: "string \<Rightarrow> app_body reply list \<Rightarrow> run" where
  "waitForHealthy appId rs = after [Print health_banner, Timeout 1000] (health_checkStatus appId rs)"

text \<open>
  \<^verbatim>\<open>waitForFinishInstallation\<close>. The variable \<^verbatim>\<open>currentProgress\<close> starts as the empty
  string and then holds the progress of the last poll, a string or null; of these the
  non-empty strings are the truthy values. \<open>progress_output\<close> is the part of the
  handler under the comment "track current progress and show progress dots".
\<close>

definition progress_label :: "string \<Rightarrow> string" where
  "progress_label p = (let tmp = js_split CHR '','' p in if length tmp = 2 then tmp ! 1 else tmp ! 0)"

definition waiting_label :: string where
  "waiting_label = CHR 0x0A # '' => '' @ cyan ''Waiting to start installation ''"

definition progress_output :: "string option \<Rightarrow> string option \<Rightarrow> effect list" where
  "progress_output currentProgress p =
     (if currentProgress = p
        then (case currentProgress of
                Some s \<Rightarrow>
                  if s \<noteq> [] \<and> indexOf s ''Creating image'' = - 1 then [Print ''.''] else []
              | None \<Rightarrow> [])
      else (case p of
              Some s \<Rightarrow> [Print (CHR 0x0A # '' => '' @ cyan (trim (progress_label s)) @ '' '')]
            | None \<Rightarrow> [Print waiting_label]))"

definition error_message :: "string option \<Rightarrow> string" where
  "error_message v = (case v of None \<Rightarrow> ''null'' | Some s \<Rightarrow> s)"

fun install_checkStatus :: "string \<Rightarrow> bool \<Rightarrow> string option \<Rightarrow> app_body reply list \<Rightarrow> run" where
  "install_checkStatus appId waitForHealthcheck currentProgress [] =
     ([Get (app_path appId)], Waiting)"
| "install_checkStatus appId waitForHealthcheck currentProgress (NoResponse e # rs) =
     ([Get (app_path appId)], Called (Some (Transport e)))"
| "install_checkStatus appId waitForHealthcheck currentProgress (Response status text body # rs) =
     (if status \<noteq> 200
        then ([Get (app_path appId)], Called (Some (Error (failed_to_get_app status text))))
      else if installationState body = ''installed''
        then (if waitForHealthcheck
              then after [Get (app_path appId)] (waitForHealthy appId rs)
              else ([Get (app_path appId)], Called None))
      else if installationState body = ''error''
        then ([Get (app_path appId)],
              Called (Some (Error (error_message (installationProgress body)))))
      else after ([Get (app_path appId)]
                  @ progress_output currentProgress (installationProgress body)
                  @ [Timeout 1000])
             (install_checkStatus appId waitForHealthcheck (installationProgress body) rs))"

definition waitForFinishInstallation :: "string \<Rightarrow> bool \<Rightarrow> app_body reply list \<Rightarrow> run" where
  "waitForFinishInstallation appId waitForHealthcheck rs =
     install_checkStatus appId waitForHealthcheck (Some []) rs"

text \<open>\<^verbatim>\<open>waitForBackupCompletion\<close>: the first check is made at once.\<close>

definition progress_path :: string where
  "progress_path = ''/api/v1/cloudron/progress''"

definition failed_to_get_backup_progress :: "nat \<Rightarrow> string \<Rightarrow> string" where
  "failed_to_get_backup_progress status text =
     util_format (red ''Failed to get backup progress.'') [decimal status, text]"

fun backup_checkStatus :: "progress_body reply list \<Rightarrow> run" where
  "backup_checkStatus [] = ([Get progress_path], Waiting)"
| "backup_checkStatus (NoResponse e # rs) = ([Get progress_path], Called (Some (Transport e)))"
| "backup_checkStatus (Response status text body # rs) =
     (if status \<noteq> 200
        then ([Get progress_path],
              Called (Some (Error (failed_to_get_backup_progress status text))))
      else if percent (backup body) \<ge> 100
        then (case message (backup body) of
                Some m \<Rightarrow>
                  if m \<noteq> [] then ([Get progress_path], Called (Some (Error (''Backup failed: '' @ m))))
                  else ([Get progress_path], Called None)
              | None \<Rightarrow> ([Get progress_path], Called None))
      else after [Get progress_path, Print ''.'', Timeout 1000] (backup_checkStatus rs))"

definition waitForBackupCompletion :: "progress_body reply list \<Rightarrow> run" where
  "waitForBackupCompletion rs =
     after [Print ''Waiting for box backup to finish...''] (backup_checkStatus rs)"

text \<open>
  The poller of \<^verbatim>\<open>uninstall\<close>, \<^verbatim>\<open>waitForFinish\<close>: it ends the command on a transport
  error, ends it with success on status 404, and polls again after a second on every
  other status. The body is not read.
\<close>

definition bold :: "string \<Rightarrow> string" where
  "bold s = CHR 0x1B # ''[1m'' @ s @ CHR 0x1B # ''[22m''"

fun uninstall_waitForFinish :: "string \<Rightarrow> 'b reply list \<Rightarrow> run" where
  "uninstall_waitForFinish appId [] = ([Get (app_path appId)], Waiting)"
| "uninstall_waitForFinish appId (NoResponse e # rs) =
     ([Get (app_path appId)], Exited [AErr (Transport e)])"
| "uninstall_waitForFinish appId (Response status text body # rs) =
     (if status = 404
        then ([Get (app_path appId),
               Log (util_format (CHR 0x0A # CHR 0x0A # ''App %s successfully uninstalled.'')
                      [bold appId])],
              Exited [])
      else after [Get (app_path appId), Print ''.'', Timeout 1000]
             (uninstall_waitForFinish appId rs))"

text \<open>
  Vocabulary of the statements: the replies after which a poller polls again, and the
  reply that completes an installation.
\<close>

definition install_continues :: "app_body reply \<Rightarrow> bool" where
  "install_continues r =
     (case r of
        NoResponse e \<Rightarrow> False
      | Response status text body \<Rightarrow>
          status = 200 \<and> installationState body \<noteq> ''installed''
          \<and> installationState body \<noteq> ''error'')"

definition installed_reply :: "app_body reply \<Rightarrow> bool" where
  "installed_reply r =
     (case r of
        NoResponse e \<Rightarrow> False
      | Response status text body \<Rightarrow> status = 200 \<and> installationState body = ''installed'')"

definition health_continues :: "app_body reply \<Rightarrow> bool" where
  "health_continues r =
     (case r of
        NoResponse e \<Rightarrow> False
      | Response status text body \<Rightarrow> status = 200 \<and> health body \<noteq> Some ''healthy'')"

definition backup_continues :: "progress_body reply \<Rightarrow> bool" where
  "backup_continues r =
     (case r of
        NoResponse e \<Rightarrow> False
      | Response status text body \<Rightarrow> status = 200 \<and> percent (backup body) < 100)"

definition uninstall_continues :: "'b reply \<Rightarrow> bool" where
  "uninstall_continues r =
     (case r of NoResponse e \<Rightarrow> False | Response status text body \<Rightarrow> status \<noteq> 404)"

definition tick :: "string \<Rightarrow> effect list" where
  "tick path = [Get path, Print ''.'', Timeout 1000]"

section \<open>The exec command up to the upgrade\<close>

text \<open>
  \<^verbatim>\<open>exec\<close> looks the application up with \<^verbatim>\<open>getApp\<close>, replaces an empty command by
  \<^verbatim>\<open>/bin/bash\<close> with TTY mode forced on, checks that a TTY request comes with a terminal
  on stdin, and then makes the upgrade request. What it finds on its way is the
  environment: the path \<^verbatim>\<open>helper.locateManifest\<close> returns, the \<^verbatim>\<open>id\<close> of the manifest
  when the file can be read and parsed, the replies to the two GETs of the lookup, the
  numbers \<^verbatim>\<open>parseInt\<close> makes of the user's answers (none for NaN), the configured API
  endpoint, and what comes of the upgrade request: a plain response, the upgraded socket,
  or a request error.
\<close>

record app =
  app_id :: string
  location :: string
  appStoreId :: "string option"
  manifest_id :: string

record response =
  statusCode :: nat
  statusMessage :: string
  headers :: "(string \<times> string) list"

datatype upgrade_result = Plain response | Switched | RequestError string

record exec_env =
  locateManifest :: "string option"
  manifest :: "string option"
  app_reply :: "app reply"
  apps_reply :: "app list reply"
  answers :: "int option list"
  apiEndpoint :: "string option"
  upgrade :: upgrade_result

record exec_options =
  opt_app :: "string option"
  opt_tty :: bool

definition gray :: "string \<Rightarrow> string" where
  "gray s = CHR 0x1B # ''[90m'' @ s @ CHR 0x1B # ''[39m''"

definition js_string :: "string option \<Rightarrow> string" where
  "js_string v = (case v of None \<Rightarrow> ''undefined'' | Some s \<Rightarrow> s)"

definition falsy :: "string option \<Rightarrow> bool" where
  "falsy v = (case v of None \<Rightarrow> True | Some s \<Rightarrow> s = [])"

definition NO_APP_FOUND_ERROR_STRING :: string where
  "NO_APP_FOUND_ERROR_STRING =
     CHR 0x0A # ''Cannot find a matching app.'' @ [CHR 0x0A]
     @ gray (''Apps installed from the store are not picked automatically.'' @ [CHR 0x0A])"

definition showDeveloperModeNotice :: "string option \<Rightarrow> effect list" where
  "showDeveloperModeNotice endpoint =
     [LogError (util_format (red ''CLI mode is disabled. Enable it at %s.'')
                  [''https://'' @ js_string endpoint @ ''/#/settings''])]"

text \<open>
  \<^verbatim>\<open>selectAvailableApp\<close>: the applications of the manifest's id that do not come from
  the store; with several of them the user is asked until the answer is an index of the
  list.
\<close>

datatype lookup = LookupError exit_arg | Found "app option" | LookupExit "exit_arg list" | LookupWaiting

fun choose_app :: "app list \<Rightarrow> int option list \<Rightarrow> effect list \<times> lookup" where
  "choose_app available [] =
     ([Ask (''Choose app [0-'' @ decimal_int (int (length available) - 1) @ '']: '')], LookupWaiting)"
| "choose_app available (answer # more_answers) =
     (case answer of
        Some index \<Rightarrow>
          if index < 0 \<or> index > int (length available) - 1
          then (case choose_app available more_answers of
                  (es, l) \<Rightarrow>
                    ([Ask (''Choose app [0-'' @ decimal_int (int (length available) - 1) @ '']: ''),
                      Log (red ''Invalid selection'')] @ es, l))
          else ([Ask (''Choose app [0-'' @ decimal_int (int (length available) - 1) @ '']: '')],
                Found (Some (available ! nat index)))
      | None \<Rightarrow>
          (case choose_app available more_answers of
             (es, l) \<Rightarrow>
               ([Ask (''Choose app [0-'' @ decimal_int (int (length available) - 1) @ '']: ''),
                 Log (red ''Invalid selection'')] @ es, l)))"

definition selectAvailableApp :: "string \<Rightarrow> exec_env \<Rightarrow> effect list \<times> lookup" where
  "selectAvailableApp appId env =
     (case apps_reply env of
        NoResponse e \<Rightarrow> ([Get ''/api/v1/apps''], LookupError (AErr (Transport e)))
      | Response status text apps \<Rightarrow>
          if status \<noteq> 200
          then ([Get ''/api/v1/apps''],
                LookupError (AStr (util_format (red ''Failed to list apps. %s - %s'')
                                     [decimal status, text])))
          else (let available = filter (\<lambda>a. falsy (appStoreId a) \<and> manifest_id a = appId) apps in
                if length available = 0
                  then ([Get ''/api/v1/apps''], LookupError (AErr (Error ''No apps installed.'')))
                else if length available = 1
                  then ([Get ''/api/v1/apps''], Found (Some (available ! 0)))
                else (case choose_app available (answers env) of
                        (es, l) \<Rightarrow>
                          ([Get ''/api/v1/apps'', Log [],
                            Log (util_format ''Available apps of type %s:'' [appId])]
                           @ map (\<lambda>i. Log (util_format (''[%s]'' @ [CHR 0x09] @ ''%s'')
                                              [decimal i, location (available ! i)]))
                               [0 ..< length available]
                           @ es, l))))"

text \<open>
  \<^verbatim>\<open>getApp\<close>: with an application id, one GET of the application; without one, the
  manifest decides, and any failure of \<^verbatim>\<open>selectAvailableApp\<close> is reported as no
  application.
\<close>

definition getApp :: "string option \<Rightarrow> exec_env \<Rightarrow> effect list \<times> lookup" where
  "getApp appId env =
     (if falsy appId
      then (if falsy (locateManifest env)
            then ([], LookupError (AStr ''No CloudronManifest.json found''))
            else (case manifest env of
                    None \<Rightarrow>
                      ([], LookupExit [AStr ''Unable to read manifest.'',
                                       AStr (js_string (locateManifest env)), ASafeError])
                  | Some mid \<Rightarrow>
                      (case selectAvailableApp mid env of
                         (es, LookupError e) \<Rightarrow> (es, Found None)
                       | (es, l) \<Rightarrow> (es, l))))
      else (case app_reply env of
              NoResponse e \<Rightarrow> ([Get (app_path (js_string appId))], LookupError (AErr (Transport e)))
            | Response status text body \<Rightarrow>
                if status = 503
                  then ([Get (app_path (js_string appId))],
                        LookupExit [AStr ''The Cloudron is currently updating, please retry in a bit.''])
                else if status = 404
                  then ([Get (app_path (js_string appId))],
                        LookupError (AStr (util_format ''App %s not found.'' [bold (js_string appId)])))
                else if status \<noteq> 200
                  then ([Get (app_path (js_string appId))],
                        LookupError (AStr (failed_to_get_app status text)))
                else ([Get (app_path (js_string appId))], Found (Some body))))"

text \<open>
  The handler of a plain response to the upgrade request, and \<^verbatim>\<open>exec\<close> itself up to the
  point where the socket takes over.
\<close>

definition upgrade_handler :: "string option \<Rightarrow> response \<Rightarrow> run" where
  "upgrade_handler endpoint res =
     (if statusCode res = 412 then (showDeveloperModeNotice endpoint, Exited [])
      else if statusCode res = 403
        then ([], Exited [AStr (red ''Only admins can use this feature.'')])
      else ([], Exited [AStr ''Could not upgrade connection to tcp. http status:'',
                        ANum (statusCode res)]))"

definition exec :: "string list \<Rightarrow> exec_options \<Rightarrow> bool \<Rightarrow> exec_env \<Rightarrow> run" where
  "exec cmd options stdin_isTTY env =
     (case getApp (opt_app options) env of
        (es, LookupError e) \<Rightarrow> (es, Exited [e])
      | (es, LookupExit args) \<Rightarrow> (es, Exited args)
      | (es, LookupWaiting) \<Rightarrow> (es, Waiting)
      | (es, Found None) \<Rightarrow> (es, Exited [AStr NO_APP_FOUND_ERROR_STRING])
      | (es, Found (Some a)) \<Rightarrow>
          (let cmd' = (if cmd = [] then [''/bin/bash''] else cmd);
               tty = (if cmd = [] then True else opt_tty options)
           in if tty \<and> \<not> stdin_isTTY then (es, Exited [AStr ''stdin is not tty''])
              else after (es @ [Upgrade (app_id a) cmd' tty])
                     (case upgrade env of
                        Plain res \<Rightarrow> upgrade_handler (apiEndpoint env) res
                      | Switched \<Rightarrow> ([], Upgraded tty)
                      | RequestError e \<Rightarrow> ([], Exited [AErr (Transport e)]))))"

definition is_upgrade :: "effect \<Rightarrow> bool" where
  "is_upgrade e = (case e of Upgrade a c t \<Rightarrow> True | _ \<Rightarrow> False)"

definition is_request :: "effect \<Rightarrow> bool" where
  "is_request e = (case e of Get p \<Rightarrow> True | Upgrade a c t \<Rightarrow> True | _ \<Rightarrow> False)"

section \<open>The configuration store\<close>

text \<open>
  src/config.js keeps the configuration in the object \<^verbatim>\<open>gConfig\<close>, the JSON object
  read from the configuration file or an object created empty, and works on it with the
  path functions of the \<^verbatim>\<open>safetydance\<close> package. The values are those of JSON without arrays, and
  \<^verbatim>\<open>undefined\<close>; the members every object inherits from \<^verbatim>\<open>Object.prototype\<close> are
  functions. An object is the list of its own properties, and objects are values: no
  object is shared between two properties.
\<close>

datatype jsval =
    JUndefined
  | JNull
  | JBool bool
  | JNum int
  | JStr string
  | JObj "(string \<times> jsval) list"
  | JFun string

type_synonym props = "(string \<times> jsval) list"

text \<open>
  The names an object inherits. \<open>has_property n ps\<close> is \<^verbatim>\<open>n in o\<close> and
  \<open>get_property n ps\<close> is \<^verbatim>\<open>o[n]\<close> for an object with the own properties \<open>ps\<close>:
  both look at the own properties first and at the inherited members next. Assignment
  (\<open>AList.update\<close>) and \<^verbatim>\<open>delete\<close> (\<open>AList.delete\<close>) work on the own properties only.
  The accessor \<^verbatim>\<open>__proto__\<close> is listed as a name that is inherited, but its value and its
  setter are not modelled: no statement below is about it.
\<close>

definition object_prototype_names :: "string list" where
  "object_prototype_names =
     [''constructor'', ''toString'', ''toLocaleString'', ''valueOf'', ''hasOwnProperty'',
      ''isPrototypeOf'', ''propertyIsEnumerable'', ''__defineGetter__'', ''__defineSetter__'',
      ''__lookupGetter__'', ''__lookupSetter__'', ''__proto__'']"

definition has_property :: "string \<Rightarrow> props \<Rightarrow> bool" where
  "has_property n ps = (n \<in> fst ` set ps \<or> n \<in> set object_prototype_names)"

definition get_property :: "string \<Rightarrow> props \<Rightarrow> jsval" where
  "get_property n ps =
     (case map_of ps n of
        Some v \<Rightarrow> v
      | None \<Rightarrow> if n \<in> set object_prototype_names then JFun n else JUndefined)"

text \<open>
  \<^verbatim>\<open>safe.query(o, s)\<close>: the empty path gives the object itself; otherwise indexes in
  brackets become properties (\<^verbatim>\<open>s.replace(/\[(\w+)\]/g, '.$1')\<close>), a leading dot is
  stripped, and the path is followed part by part, giving \<^verbatim>\<open>undefined\<close> as soon as the
  value at hand is not an object or lacks the part.
\<close>

definition is_word :: "char \<Rightarrow> bool" where
  "is_word c =
     (c \<in> set ''abcdefghijklmnopqrstuvwxyzABCDEFGHIJKLMNOPQRSTUVWXYZ0123456789_'')"

function brackets_to_dots :: "string \<Rightarrow> string" where
  "brackets_to_dots [] = []"
| "brackets_to_dots (c # cs) =
     (if c = CHR ''['' \<and> takeWhile is_word cs \<noteq> []
         \<and> (case dropWhile is_word cs of [] \<Rightarrow> False | x # xs \<Rightarrow> x = CHR '']'')
      then CHR ''.'' # takeWhile is_word cs @ brackets_to_dots (tl (dropWhile is_word cs))
      else c # brackets_to_dots cs)"
  by pat_completeness auto
termination
proof (relation "measure length")
  show "wf (measure length)" by simp
next
  fix c :: char and cs :: string
  have "length (tl (dropWhile is_word cs)) \<le> length cs"
    using length_dropWhile_le [of is_word cs] by simp
  then show "(tl (dropWhile is_word cs), c # cs) \<in> measure length" by simp
next
  fix c :: char and cs :: string
  show "(cs, c # cs) \<in> measure length" by simp
qed

definition strip_leading_dot :: "string \<Rightarrow> string" where
  "strip_leading_dot s = (case s of [] \<Rightarrow> [] | c # cs \<Rightarrow> if c = CHR ''.'' then cs else s)"

fun query_path :: "string list \<Rightarrow> jsval \<Rightarrow> jsval" where
  "query_path [] obj = obj"
| "query_path (n # ns) obj =
     (case obj of
        JObj ps \<Rightarrow> if has_property n ps then query_path ns (get_property n ps) else JUndefined
      | _ \<Rightarrow> JUndefined)"

definition safe_query :: "jsval \<Rightarrow> string \<Rightarrow> jsval" where
  "safe_query obj s =
     (if s = [] then obj
      else query_path (js_split CHR ''.'' (strip_leading_dot (brackets_to_dots s))) obj)"

text \<open>
  \<^verbatim>\<open>safe.set(o, s, value)\<close> and \<^verbatim>\<open>safe.unset(o, s)\<close> split the path at the dots. On the
  way to the last part, \<^verbatim>\<open>set\<close> replaces whatever is not an object by an empty object,
  and \<^verbatim>\<open>unset\<close> gives up; at the last part \<^verbatim>\<open>set\<close> assigns and \<^verbatim>\<open>unset\<close> deletes.
  The empty path changes nothing.
\<close>

definition child_object :: "string \<Rightarrow> props \<Rightarrow> props option" where
  "child_object n ps =
     (if has_property n ps
      then (case get_property n ps of JObj c \<Rightarrow> Some c | _ \<Rightarrow> None)
      else None)"

fun set_path :: "string list \<Rightarrow> jsval \<Rightarrow> props \<Rightarrow> props" where
  "set_path [] v ps = ps"
| "set_path [n] v ps = AList.update n v ps"
| "set_path (n # m # ns) v ps =
     AList.update n
       (JObj (set_path (m # ns) v (case child_object n ps of Some c \<Rightarrow> c | None \<Rightarrow> []))) ps"

definition safe_set :: "props \<Rightarrow> string \<Rightarrow> jsval \<Rightarrow> props" where
  "safe_set ps s v = (if s = [] then ps else set_path (js_split CHR ''.'' s) v ps)"

fun unset_path :: "string list \<Rightarrow> props \<Rightarrow> props" where
  "unset_path [] ps = ps"
| "unset_path [n] ps = AList.delete n ps"
| "unset_path (n # m # ns) ps =
     (case child_object n ps of
        Some c \<Rightarrow> AList.update n (JObj (unset_path (m # ns) c)) ps
      | None \<Rightarrow> ps)"

definition safe_unset :: "props \<Rightarrow> string \<Rightarrow> props" where
  "safe_unset ps s = (if s = [] then ps else unset_path (js_split CHR ''.'' s) ps)"

text \<open>
  The four operations of src/config.js on \<^verbatim>\<open>gConfig\<close>. \<^verbatim>\<open>set\<close> takes a key and a value,
  or an object whose properties are copied (\<^verbatim>\<open>_.extend\<close>); \<^verbatim>\<open>unset\<close> and \<^verbatim>\<open>has\<close> take
  any number of keys. \<^verbatim>\<open>set\<close> and \<^verbatim>\<open>unset\<close> also write the configuration file, which
  is not part of the model.
\<close>

datatype config_key = Key string | Properties props

definition config_set :: "config_key \<Rightarrow> jsval \<Rightarrow> props \<Rightarrow> props" where
  "config_set key v gConfig =
     (case key of
        Properties src \<Rightarrow> foldl (\<lambda>g (k, x). AList.update k x g) gConfig src
      | Key k \<Rightarrow> safe_set gConfig k v)"

definition config_get :: "string \<Rightarrow> props \<Rightarrow> jsval" where
  "config_get key gConfig = safe_query (JObj gConfig) key"

definition config_unset :: "string list \<Rightarrow> props \<Rightarrow> props" where
  "config_unset keys gConfig = foldl safe_unset gConfig keys"

fun config_has :: "string list \<Rightarrow> props \<Rightarrow> bool" where
  "config_has [] gConfig = True"
| "config_has (k # ks) gConfig = (if \<not> has_property k gConfig then False else config_has ks gConfig)"

text \<open>
  A plain key: not empty, without the path characters dot and opening bracket, and not a
  name every object inherits.
\<close>

definition plain_key :: "string \<Rightarrow> bool" where
  "plain_key k =
     (k \<noteq> [] \<and> CHR ''.'' \<notin> set k \<and> CHR ''['' \<notin> set k \<and> k \<notin> set object_prototype_names)"

section \<open>Lemmas\<close>

subsection \<open>The inbound demultiplexer: resuming after a partial read\<close>

lemma on_readable_resume:
  "on_readable st =
     (case resume (header st) (stream st) (writes st) of
        Inl e \<Rightarrow> Inl e
      | Inr (h', s', out') \<Rightarrow> Inr \<lparr>header = h', stream = s', writes = out'\<rparr>)"
  by (simp add: on_readable_def resume_def split: option.splits prod.splits)

lemma resume_Some [simp]: "resume (Some h) s out = demux_loop (Some h) s out"
  by (simp add: resume_def)

lemma resume_None: "resume None s out = (case stream_read 8 s of (h, s') \<Rightarrow> demux_loop h s' out)"
  by (simp add: resume_def)

lemma demux_loop_Some_blocked:
  "readUInt8 h 0 = Inr ty \<Longrightarrow> readUInt32BE h 4 = Inr n \<Longrightarrow> stream_read n s = (None, s')
     \<Longrightarrow> demux_loop (Some h) s out = Inr (Some h, s', out)"
  by simp

lemma demux_loop_Some_emit:
  "readUInt8 h 0 = Inr ty \<Longrightarrow> readUInt32BE h 4 = Inr n \<Longrightarrow> stream_read n s = (Some p, s')
     \<Longrightarrow> demux_loop (Some h) s out
           = resume None s' (out @ [(if ty = 2 then Stderr else Stdout, p)])"
  by (simp add: resume_None)

declare demux_loop.simps(2) [simp del]

lemma stream_read_cases:
  assumes "\<not> ended s"
  obtains (blocked) "n = 0 \<or> length (buffered s) < n" "stream_read n s = (None, s)"
    | (avail) "0 < n" "n \<le> length (buffered s)"
        "stream_read n s = (Some (take n (buffered s)), s\<lparr>buffered := drop n (buffered s)\<rparr>)"
  using assms by (cases "n = 0 \<or> length (buffered s) < n") (auto simp: stream_read_def)

lemma stream_read_more_avail:
  "0 < n \<Longrightarrow> n \<le> length (buffered s)
     \<Longrightarrow> stream_read n (with_more s c)
           = (Some (take n (buffered s)), with_more (s\<lparr>buffered := drop n (buffered s)\<rparr>) c)"
  by (simp add: stream_read_def with_more_def)

lemma read8_more:
  assumes "\<not> ended s" "stream_read 8 s = (h1, s2)"
  shows "resume None (with_more s c) out = resume h1 (with_more s2 c) out"
  using assms(1)
proof (cases rule: stream_read_cases [where n = 8])
  case blocked
  with assms(2) show ?thesis by simp
next
  case avail
  with assms(2) stream_read_more_avail [OF avail(1,2), of c] show ?thesis
    by (auto simp: resume_None)
qed

lemma stream_read_ended: "stream_read n s = (r, s') \<Longrightarrow> ended s' = ended s"
  by (auto simp: stream_read_def split: if_splits)

lemma demux_loop_ended:
  "demux_loop h s out = Inr (h', s', out') \<Longrightarrow> ended s' = ended s"
proof (induction h s out rule: demux_loop.induct)
  case (1 s out)
  then show ?case by simp
next
  case (2 h s out)
  from "2.prems" obtain ty n where rt: "readUInt8 h 0 = Inr ty" and rn: "readUInt32BE h 4 = Inr n"
    by (auto simp: demux_loop.simps(2) split: sum.splits)
  obtain r s1 where sr: "stream_read n s = (r, s1)" by (cases "stream_read n s")
  show ?case
  proof (cases r)
    case None
    with "2.prems" rt rn sr stream_read_ended [OF sr] show ?thesis
      by (simp add: demux_loop.simps(2))
  next
    case (Some p)
    obtain h1 s2 where r8: "stream_read 8 s1 = (h1, s2)" by (cases "stream_read 8 s1")
    let ?out1 = "out @ [(if ty = 2 then Stderr else Stdout, p)]"
    from "2.prems" rt rn sr Some r8 have run: "demux_loop h1 s2 ?out1 = Inr (h', s', out')"
      by (simp add: demux_loop.simps(2))
    have "ended s' = ended s2"
      using "2.IH" [OF rt rn sr [symmetric] Some r8 [symmetric] run] .
    with stream_read_ended [OF sr] stream_read_ended [OF r8] show ?thesis by simp
  qed
qed

lemma demux_loop_more:
  "\<not> ended s \<Longrightarrow> demux_loop h s out = Inr (h', s', out')
     \<Longrightarrow> resume h (with_more s c) out = resume h' (with_more s' c) out'"
proof (induction h s out rule: demux_loop.induct)
  case (1 s out)
  then show ?case by simp
next
  case (2 h s out)
  from "2.prems"(2) obtain ty n where rt: "readUInt8 h 0 = Inr ty" and rn: "readUInt32BE h 4 = Inr n"
    by (auto simp: demux_loop.simps(2) split: sum.splits)
  from "2.prems"(1) show ?case
  proof (cases rule: stream_read_cases [where n = n])
    case blocked
    with "2.prems"(2) rt rn show ?thesis by (simp add: demux_loop.simps(2))
  next
    case avail
    let ?s1 = "s\<lparr>buffered := drop n (buffered s)\<rparr>"
    let ?out1 = "out @ [(if ty = 2 then Stderr else Stdout, take n (buffered s))]"
    obtain h1 s2 where r8: "stream_read 8 ?s1 = (h1, s2)" by (cases "stream_read 8 ?s1")
    have ne: "\<not> ended ?s1" "\<not> ended s2" using "2.prems"(1) r8
      by (auto simp: stream_read_def split: if_splits)
    from "2.prems"(2) rt rn avail(3) r8
    have run: "demux_loop h1 s2 ?out1 = Inr (h', s', out')"
      by (simp add: demux_loop.simps(2))
    have "resume h1 (with_more s2 c) ?out1 = resume h' (with_more s' c) out'"
      using "2.IH" [OF rt rn avail(3) [symmetric] refl r8 [symmetric] ne(2) run] .
    moreover have "resume (Some h) (with_more s c) out = resume None (with_more ?s1 c) ?out1"
      using demux_loop_Some_emit [OF rt rn stream_read_more_avail [OF avail(1,2), of c]] by simp
    moreover have "resume None (with_more ?s1 c) ?out1 = resume h1 (with_more s2 c) ?out1"
      by (rule read8_more [OF ne(1) r8])
    ultimately show ?thesis by simp
  qed
qed

lemma read_ok: "8 \<le> length h \<Longrightarrow> \<exists>ty n. readUInt8 h 0 = Inr ty \<and> readUInt32BE h 4 = Inr n"
  by (simp add: readUInt8_def readUInt32BE_def)

lemma stream_read8_hdr_ok: "\<not> ended s \<Longrightarrow> stream_read 8 s = (h, s') \<Longrightarrow> hdr_ok h"
  by (auto simp: stream_read_def hdr_ok_def split: if_splits)

lemma demux_loop_total:
  "\<not> ended s \<Longrightarrow> hdr_ok h
     \<Longrightarrow> \<exists>h' s' out'. demux_loop h s out = Inr (h', s', out') \<and> hdr_ok h'"
proof (induction h s out rule: demux_loop.induct)
  case (1 s out)
  then show ?case by simp
next
  case (2 h s out)
  from "2.prems"(2) have "8 \<le> length h" by (simp add: hdr_ok_def)
  then obtain ty n where rt: "readUInt8 h 0 = Inr ty" and rn: "readUInt32BE h 4 = Inr n"
    using read_ok by blast
  from "2.prems"(1) show ?case
  proof (cases rule: stream_read_cases [where n = n])
    case blocked
    with rt rn "2.prems"(2) show ?thesis by (simp add: demux_loop.simps(2))
  next
    case avail
    let ?s1 = "s\<lparr>buffered := drop n (buffered s)\<rparr>"
    let ?out1 = "out @ [(if ty = 2 then Stderr else Stdout, take n (buffered s))]"
    obtain h1 s2 where r8: "stream_read 8 ?s1 = (h1, s2)" by (cases "stream_read 8 ?s1")
    have ne: "\<not> ended ?s1" "\<not> ended s2" using "2.prems"(1) r8
      by (auto simp: stream_read_def split: if_splits)
    have ok: "hdr_ok h1" by (rule stream_read8_hdr_ok [OF ne(1) r8])
    have "\<exists>h' s' out'. demux_loop h1 s2 ?out1 = Inr (h', s', out') \<and> hdr_ok h'"
      using "2.IH" [OF rt rn avail(3) [symmetric] refl r8 [symmetric] ne(2) ok] .
    with rt rn avail(3) r8 show ?thesis by (simp add: demux_loop.simps(2))
  qed
qed

lemma resume_total:
  assumes "\<not> ended s" "hdr_ok h"
  shows "\<exists>h' s' out'. resume h s out = Inr (h', s', out') \<and> hdr_ok h' \<and> \<not> ended s'"
proof -
  obtain h1 s1 where r: "(case h of Some hh \<Rightarrow> (Some hh, s) | None \<Rightarrow> stream_read 8 s) = (h1, s1)"
    by (cases "(case h of Some hh \<Rightarrow> (Some hh, s) | None \<Rightarrow> stream_read 8 s)")
  with assms have "\<not> ended s1" "hdr_ok h1"
    by (auto simp: stream_read_def hdr_ok_def split: option.splits if_splits)
  from demux_loop_total [OF this, of out] obtain h' s' out'
    where run: "demux_loop h1 s1 out = Inr (h', s', out')" and ok: "hdr_ok h'" by blast
  from demux_loop_ended [OF run] \<open>\<not> ended s1\<close> have "\<not> ended s'" by simp
  with run ok r show ?thesis by (simp add: resume_def)
qed

lemma resume_more:
  assumes "\<not> ended s" "resume h s out = Inr (h', s', out')"
  shows "resume h (with_more s c) out = resume h' (with_more s' c) out'"
proof (cases h)
  case (Some hh)
  with assms demux_loop_more [of s "Some hh" out h' s' out' c] show ?thesis by simp
next
  case None
  obtain h1 s1 where r8: "stream_read 8 s = (h1, s1)" by (cases "stream_read 8 s")
  with assms(2) None have run: "demux_loop h1 s1 out = Inr (h', s', out')"
    by (simp add: resume_None)
  from r8 assms(1) have "\<not> ended s1" by (simp add: stream_read_ended)
  from demux_loop_more [OF this run, of c] read8_more [OF assms(1) r8, of c out] None
  show ?thesis by simp
qed

lemma push_simps [simp]:
  "header (push c st) = header st" "writes (push c st) = writes st"
  "stream (push c st) = with_more (stream st) c"
  by (simp_all add: push_def with_more_def)

lemma push_push: "push c2 (push c1 st) = push (c1 @ c2) st"
  by (simp add: push_def)

lemma push_Nil [simp]: "push [] st = st"
  by (simp add: push_def)

lemma ended_more [simp]: "ended (with_more s c) = ended s"
  by (simp add: with_more_def)

lemma ready_push [simp]: "ready (push c st) = ready st"
  by (simp add: ready_def)

lemma on_readable_ok:
  assumes "ready st"
  shows "\<exists>st'. on_readable st = Inr st' \<and> ready st'"
proof -
  from assms resume_total [of "stream st" "header st" "writes st"]
  obtain h' s' out' where "resume (header st) (stream st) (writes st) = Inr (h', s', out')"
    "hdr_ok h'" "\<not> ended s'" by (auto simp: ready_def)
  then show ?thesis by (simp add: on_readable_resume ready_def)
qed

lemma on_readable_push:
  assumes "\<not> ended (stream st)" "on_readable st = Inr st'"
  shows "on_readable (push c st') = on_readable (push c st)"
proof -
  from assms(2) have r: "resume (header st) (stream st) (writes st)
      = Inr (header st', stream st', writes st')"
    by (auto simp: on_readable_resume split: sum.splits)
  from resume_more [OF assms(1) r, of c] show ?thesis
    by (simp add: on_readable_resume)
qed

lemma on_readable_idem:
  assumes "\<not> ended (stream st)" "on_readable st = Inr st'"
  shows "on_readable st' = Inr st'"
  using on_readable_push [OF assms, of "[]"] assms(2) by simp

lemma feed_concat:
  "ready st \<Longrightarrow> on_readable st = Inr st \<Longrightarrow> feed st cs = on_readable (push (concat cs) st)"
proof (induction cs arbitrary: st)
  case Nil
  then show ?case by simp
next
  case (Cons c cs)
  from Cons.prems(1) have rp: "ready (push c st)" by simp
  from on_readable_ok [OF rp] obtain st1
    where s1: "on_readable (push c st) = Inr st1" and r1: "ready st1" by blast
  from rp have ne: "\<not> ended (stream (push c st))" by (simp add: ready_def)
  have idem: "on_readable st1 = Inr st1" by (rule on_readable_idem [OF ne s1])
  have "feed st (c # cs) = feed st1 cs" using s1 by simp
  also have "\<dots> = on_readable (push (concat cs) st1)" by (rule Cons.IH [OF r1 idem])
  also have "\<dots> = on_readable (push (concat cs) (push c st))"
    by (rule on_readable_push [OF ne s1])
  finally show ?case by (simp add: push_push)
qed

lemma demux_init_ready: "ready demux_init"
  by (simp add: ready_def demux_init_def hdr_ok_def)

lemma demux_init_settled: "on_readable demux_init = Inr demux_init"
  by (simp add: on_readable_def demux_init_def stream_read_def)

lemma feed_init: "feed demux_init cs = on_readable (push (concat cs) demux_init)"
  by (rule feed_concat [OF demux_init_ready demux_init_settled])

lemma stream_read_prefix:
  "p \<noteq> [] \<Longrightarrow> stream_read (length p) \<lparr>buffered = p @ t, ended = e\<rparr>
     = (Some p, \<lparr>buffered = t, ended = e\<rparr>)"
  by (simp add: stream_read_def)

lemma resume_frame:
  assumes "wf_frame f" "data_frame f"
  shows "resume None \<lparr>buffered = fst f @ snd f @ t, ended = e\<rparr> out
           = resume None \<lparr>buffered = t, ended = e\<rparr> (out @ [route f])"
proof -
  from assms(1) have len: "length (fst f) = 8" and rn: "readUInt32BE (fst f) 4 = Inr (length (snd f))"
    by (simp_all add: wf_frame_def)
  from len obtain ty where rt: "readUInt8 (fst f) 0 = Inr ty"
    using read_ok [of "fst f"] by auto
  have hne: "fst f \<noteq> []" using len by auto
  have r8: "stream_read 8 \<lparr>buffered = fst f @ snd f @ t, ended = e\<rparr>
      = (Some (fst f), \<lparr>buffered = snd f @ t, ended = e\<rparr>)"
    using stream_read_prefix [OF hne, of "snd f @ t" e] len by simp
  have rp: "stream_read (length (snd f)) \<lparr>buffered = snd f @ t, ended = e\<rparr>
      = (Some (snd f), \<lparr>buffered = t, ended = e\<rparr>)"
    using assms(2) by (simp add: stream_read_prefix data_frame_def)
  have "route f = (if ty = 2 then Stderr else Stdout, snd f)"
    using rt by (simp add: route_def)
  with demux_loop_Some_emit [OF rt rn rp, of out] r8 show ?thesis
    by (simp add: resume_None)
qed

lemma resume_frames:
  "\<forall>f\<in>set pre. wf_frame f \<and> data_frame f
     \<Longrightarrow> resume None \<lparr>buffered = frames_bytes pre @ t, ended = e\<rparr> out
           = resume None \<lparr>buffered = t, ended = e\<rparr> (out @ map route pre)"
proof (induction pre arbitrary: out)
  case Nil
  then show ?case by (simp add: frames_bytes_def)
next
  case (Cons f pre)
  have "frames_bytes (f # pre) @ t = fst f @ snd f @ frames_bytes pre @ t"
    by (simp add: frames_bytes_def)
  with Cons resume_frame [of f "frames_bytes pre @ t" e out] show ?case by simp
qed

lemma resume_zero_header:
  assumes "length hz = 8" "readUInt32BE hz 4 = Inr 0"
  shows "resume None \<lparr>buffered = hz @ t, ended = e\<rparr> out
           = Inr (Some hz, \<lparr>buffered = t, ended = e\<rparr>, out)"
proof -
  from assms(1) obtain ty where rt: "readUInt8 hz 0 = Inr ty"
    using read_ok [of hz] by auto
  have hne: "hz \<noteq> []" using assms(1) by auto
  have r8: "stream_read 8 \<lparr>buffered = hz @ t, ended = e\<rparr>
      = (Some hz, \<lparr>buffered = t, ended = e\<rparr>)"
    using stream_read_prefix [OF hne, of t e] assms(1) by simp
  have r0: "stream_read 0 \<lparr>buffered = t, ended = e\<rparr> = (None, \<lparr>buffered = t, ended = e\<rparr>)"
    by (simp add: stream_read_def)
  from demux_loop_Some_blocked [OF rt assms(2) r0, of out] r8 show ?thesis
    by (simp add: resume_None)
qed

lemma resume_empty:
  "resume None \<lparr>buffered = [], ended = e\<rparr> out = Inr (None, \<lparr>buffered = [], ended = e\<rparr>, out)"
  by (simp add: resume_None stream_read_def)

lemma push_init:
  "push bs demux_init = \<lparr>header = None, stream = \<lparr>buffered = bs, ended = False\<rparr>, writes = []\<rparr>"
  by (simp add: push_def demux_init_def)

lemma feed_frames_then_zero:
  assumes "\<forall>f\<in>set pre. wf_frame f \<and> data_frame f" "length hz = 8" "readUInt32BE hz 4 = Inr 0"
    and "concat cs = frames_bytes pre @ hz @ t"
  shows "feed demux_init cs
           = Inr \<lparr>header = Some hz, stream = \<lparr>buffered = t, ended = False\<rparr>,
                  writes = map route pre\<rparr>"
  using resume_frames [OF assms(1), of "hz @ t" False "[]"] resume_zero_header [OF assms(2,3)] assms(4)
  by (simp add: feed_init push_init on_readable_resume)

lemma feed_frames_all_data:
  assumes "\<forall>f\<in>set fs. wf_frame f \<and> data_frame f" "concat cs = frames_bytes fs"
  shows "feed demux_init cs
           = Inr \<lparr>header = None, stream = \<lparr>buffered = [], ended = False\<rparr>, writes = map route fs\<rparr>"
  using resume_frames [OF assms(1), of "[]" False "[]"] resume_empty assms(2)
  by (simp add: feed_init push_init on_readable_resume)

lemma on_end_zero_header:
  assumes "length hz = 8" "readUInt32BE hz 4 = Inr 0"
  shows "on_end \<lparr>header = Some hz, stream = \<lparr>buffered = t, ended = e\<rparr>, writes = ws\<rparr>
           = Inr \<lparr>header = Some hz, stream = \<lparr>buffered = t, ended = True\<rparr>, writes = ws\<rparr>"
proof -
  from assms(1) obtain ty where rt: "readUInt8 hz 0 = Inr ty"
    using read_ok [of hz] by auto
  have r0: "stream_read 0 \<lparr>buffered = t, ended = True\<rparr> = (None, \<lparr>buffered = t, ended = True\<rparr>)"
    by (simp add: stream_read_def)
  from demux_loop_Some_blocked [OF rt assms(2) r0, of ws] show ?thesis
    by (simp add: on_end_def push_eof_def on_readable_resume)
qed

lemma on_end_idle:
  "on_end \<lparr>header = None, stream = \<lparr>buffered = [], ended = e\<rparr>, writes = ws\<rparr>
     = Inr \<lparr>header = None, stream = \<lparr>buffered = [], ended = True\<rparr>, writes = ws\<rparr>"
  by (simp add: on_end_def push_eof_def on_readable_resume resume_empty)

lemma frames_split:
  "frames_bytes fs = frames_bytes (takeWhile data_frame fs) @ frames_bytes (dropWhile data_frame fs)"
proof -
  have "frames_bytes (takeWhile data_frame fs @ dropWhile data_frame fs)
      = frames_bytes (takeWhile data_frame fs) @ frames_bytes (dropWhile data_frame fs)"
    unfolding frames_bytes_def by (simp only: map_append concat_append)
  then show ?thesis by simp
qed

lemma run_frames:
  assumes wf: "\<forall>f\<in>set fs. wf_frame f" and cs: "concat cs = frames_bytes fs"
  shows "run_demux cs = Inr (map route (takeWhile data_frame fs))"
    and "run_demux_end cs = Inr (map route (takeWhile data_frame fs))"
proof -
  let ?pre = "takeWhile data_frame fs"
  have pre: "\<forall>f\<in>set ?pre. wf_frame f \<and> data_frame f"
    using wf by (auto dest: set_takeWhileD)
  have "run_demux cs = Inr (map route ?pre) \<and> run_demux_end cs = Inr (map route ?pre)"
  proof (cases "dropWhile data_frame fs")
    case Nil
    then have eq: "takeWhile data_frame fs = fs" by (metis append_Nil2 takeWhile_dropWhile_id)
    with pre have "\<forall>f\<in>set fs. wf_frame f \<and> data_frame f" by simp
    from feed_frames_all_data [OF this cs] show ?thesis
      unfolding eq by (simp add: run_demux_def run_demux_end_def feed_end_def on_end_idle)
  next
    case (Cons z rest)
    then have "z \<in> set fs" by (metis list.set_intros(1) set_dropWhileD)
    with wf have wz: "wf_frame z" by simp
    from Cons have "\<not> data_frame z" by (metis hd_dropWhile list.distinct(1) list.sel(1))
    with wz have z: "length (fst z) = 8" "readUInt32BE (fst z) 4 = Inr 0" "snd z = []"
      by (simp_all add: wf_frame_def data_frame_def)
    have "concat cs = frames_bytes ?pre @ fst z @ frames_bytes rest"
      using cs frames_split [of fs] Cons z(3) by (simp add: frames_bytes_def)
    from feed_frames_then_zero [OF pre z(1,2) this] on_end_zero_header [OF z(1,2)]
    show ?thesis
      by (simp add: run_demux_def run_demux_end_def feed_end_def)
  qed
  then show "run_demux cs = Inr (map route ?pre)" "run_demux_end cs = Inr (map route ?pre)"
    by simp_all
qed

subsection \<open>Outbound framing\<close>

lemma unat_byte_of_nat: "unat (of_nat n :: byte) = n mod 256"
  by (simp add: unat_of_nat)

lemma be32_value:
  fixes v :: nat
  shows "(v div 16777216) * 16777216 + (v div 65536) mod 256 * 65536
           + (v div 256) mod 256 * 256 + v mod 256 = v"
proof -
  have b0: "v div 16777216 = v div 65536 div 256"
    by (simp add: div_mult2_eq [symmetric])
  have c0: "v div 65536 = v div 256 div 256"
    by (simp add: div_mult2_eq [symmetric])
  have b: "v div 65536 = v div 16777216 * 256 + (v div 65536) mod 256"
    unfolding b0 by simp
  have c: "v div 256 = v div 65536 * 256 + (v div 256) mod 256"
    unfolding c0 by simp
  have d: "v = v div 256 * 256 + v mod 256"
    by simp
  have "v = (v div 65536 * 256 + (v div 256) mod 256) * 256 + v mod 256"
    using c d by simp
  also have "\<dots> = ((v div 16777216 * 256 + (v div 65536) mod 256) * 256
                      + (v div 256) mod 256) * 256 + v mod 256"
    using b by simp
  finally show ?thesis by (simp add: algebra_simps)
qed

lemma be32_top:
  fixes v :: nat
  shows "v < 2 ^ 32 \<Longrightarrow> (v div 16777216) mod 256 = v div 16777216"
  by (simp add: less_mult_imp_div_less)

lemma read_uint32be:
  assumes "v < 2 ^ 32"
  shows "readUInt32BE (uint32be v) 0 = Inr v"
  using be32_value [of v] be32_top [OF assms]
  by (simp add: readUInt32BE_def uint32be_def unat_byte_of_nat)

lemma writeUInt32BE_fresh:
  assumes "v < 2 ^ 32" "length b = 4"
  shows "writeUInt32BE v 0 b = Inr (uint32be v)"
  using assms by (simp add: writeUInt32BE_def)

lemma on_stdin_data_ok:
  "length d < 2 ^ 32 \<Longrightarrow> on_stdin_data d = Inr (chunk_calls d)"
  by (simp add: on_stdin_data_def chunk_calls_def writeUInt32BE_fresh new_Buffer_def)

lemma on_stdin_end_ok: "on_stdin_end = Inr [SockWrite [0, 0, 0, 0]]"
  by (simp add: on_stdin_end_def writeUInt32BE_def new_Buffer_def uint32be_def)

lemma on_stdin_chunks:
  "\<forall>d\<in>set ds. length d < 2 ^ 32
     \<Longrightarrow> on_stdin (map Data ds @ evs)
           = (case on_stdin evs of Inl e \<Rightarrow> Inl e
              | Inr calls \<Rightarrow> Inr (concat (map chunk_calls ds) @ calls))"
  by (induction ds) (auto simp: on_stdin_data_ok split: sum.splits)

subsection \<open>Text helpers\<close>

lemma util_format_plain:
  "CHR ''%'' \<notin> set f \<Longrightarrow> util_format f args = f @ concat (map (\<lambda>a. CHR '' '' # a) args)"
  by (induction f args rule: util_format.induct) auto

lemma failed_to_get_app_eq:
  "failed_to_get_app status text
     = red ''Failed to get app.'' @ '' '' @ decimal status @ '' '' @ text"
proof -
  have "CHR ''%'' \<notin> set (red ''Failed to get app.'')" by (simp add: red_def)
  then show ?thesis by (simp add: failed_to_get_app_def util_format_plain)
qed

lemma failed_to_get_backup_progress_eq:
  "failed_to_get_backup_progress status text
     = red ''Failed to get backup progress.'' @ '' '' @ decimal status @ '' '' @ text"
proof -
  have "CHR ''%'' \<notin> set (red ''Failed to get backup progress.'')" by (simp add: red_def)
  then show ?thesis by (simp add: failed_to_get_backup_progress_def util_format_plain)
qed

lemma js_split_none: "c \<notin> set s \<Longrightarrow> js_split c s = [s]"
  by (induction s) auto

lemma js_split_first: "c \<notin> set a \<Longrightarrow> js_split c (a @ c # b) = a # js_split c b"
  by (induction a) auto

lemma progress_label_no_comma: "CHR '','' \<notin> set s \<Longrightarrow> progress_label s = s"
  by (simp add: progress_label_def js_split_none)

lemma progress_label_one_comma:
  "CHR '','' \<notin> set a \<Longrightarrow> CHR '','' \<notin> set b \<Longrightarrow> progress_label (a @ CHR '','' # b) = b"
  by (simp add: progress_label_def js_split_first js_split_none)

lemma js_split_length: "length (js_split c s) = Suc (length (filter (\<lambda>x. x = c) s))"
  by (induction s) (auto split: list.splits)

lemma progress_label_more_commas:
  "CHR '','' \<notin> set a \<Longrightarrow> progress_label (a @ CHR '','' # b @ CHR '','' # d) = a"
  by (simp add: progress_label_def js_split_first js_split_length)

subsection \<open>The pollers over a prefix of replies that keep them polling\<close>

lemma after_simps [simp]:
  "fst (after es r) = es @ fst r" "snd (after es r) = snd r"
  "after es (tr, out) = (es @ tr, out)"
  by (simp_all add: after_def)

lemma install_prefix:
  assumes "\<forall>r\<in>set pre. install_continues r"
    and "\<And>cur. install_checkStatus a w cur (r # rest) = after [Get (app_path a)] x"
  shows "install_checkStatus a w cur (pre @ r # rest)
           = after (fst (install_checkStatus a w cur pre)) x"
  using assms(1)
proof (induction pre arbitrary: cur)
  case Nil
  show ?case using assms(2) [of cur] by simp
next
  case (Cons p pre)
  from Cons.prems obtain t b where p: "p = Response 200 t b"
    and st: "installationState b \<noteq> ''installed''" "installationState b \<noteq> ''error''"
    by (cases p) (auto simp: install_continues_def)
  from Cons.prems have "\<forall>r\<in>set pre. install_continues r" by simp
  from Cons.IH [OF this, of "installationProgress b"] p st show ?case
    by (simp add: after_def)
qed

lemma install_flag_irrelevant:
  "\<forall>r\<in>set rs. \<not> installed_reply r
     \<Longrightarrow> install_checkStatus a True cur rs = install_checkStatus a False cur rs"
proof (induction rs arbitrary: cur)
  case Nil
  show ?case by simp
next
  case (Cons p rs)
  show ?case
  proof (cases p)
    case (NoResponse e)
    then show ?thesis by simp
  next
    case (Response status tx body)
    with Cons.prems have "\<not> (status = 200 \<and> installationState body = ''installed'')"
      by (simp add: installed_reply_def)
    moreover from Cons.prems have "\<forall>r\<in>set rs. \<not> installed_reply r" by simp
    ultimately show ?thesis using Response Cons.IH [of "installationProgress body"]
      by auto
  qed
qed

lemma health_prefix:
  assumes "\<forall>r\<in>set pre. health_continues r"
  shows "health_checkStatus a (pre @ rs)
           = after (concat (map (\<lambda>r. tick (app_path a)) pre)) (health_checkStatus a rs)"
  using assms
proof (induction pre)
  case Nil
  show ?case by (simp add: after_def)
next
  case (Cons p pre)
  from Cons.prems obtain t b where p: "p = Response 200 t b" and h: "health b \<noteq> Some ''healthy''"
    by (cases p) (auto simp: health_continues_def)
  from Cons.prems have "\<forall>r\<in>set pre. health_continues r" by simp
  from Cons.IH [OF this] p h show ?case
    by (simp add: after_def tick_def)
qed

lemma backup_prefix:
  assumes "\<forall>r\<in>set pre. backup_continues r"
  shows "backup_checkStatus (pre @ rs)
           = after (concat (map (\<lambda>r. tick progress_path) pre)) (backup_checkStatus rs)"
  using assms
proof (induction pre)
  case Nil
  show ?case by (simp add: after_def)
next
  case (Cons p pre)
  from Cons.prems obtain t b where p: "p = Response 200 t b" and h: "percent (backup b) < 100"
    by (cases p) (auto simp: backup_continues_def)
  from Cons.prems have "\<forall>r\<in>set pre. backup_continues r" by simp
  from Cons.IH [OF this] p h show ?case
    by (simp add: after_def tick_def)
qed

lemma uninstall_prefix:
  assumes "\<forall>r\<in>set pre. uninstall_continues r"
  shows "uninstall_waitForFinish a (pre @ rs)
           = after (concat (map (\<lambda>r. tick (app_path a)) pre)) (uninstall_waitForFinish a rs)"
  using assms
proof (induction pre)
  case Nil
  show ?case by (simp add: after_def)
next
  case (Cons p pre)
  from Cons.prems obtain s t b where p: "p = Response s t b" and h: "s \<noteq> 404"
    by (cases p) (auto simp: uninstall_continues_def)
  from Cons.prems have "\<forall>r\<in>set pre. uninstall_continues r" by simp
  from Cons.IH [OF this] p h show ?case
    by (simp add: after_def tick_def)
qed

subsection \<open>The exec command\<close>

lemma developer_mode_notice:
  "showDeveloperModeNotice endpoint
     = [LogError (red (''CLI mode is disabled. Enable it at https://'' @ js_string endpoint
                       @ ''/#/settings.''))]"
  by (simp add: showDeveloperModeNotice_def red_def)

lemma choose_app_no_request: "\<forall>e\<in>set (fst (choose_app available as)). \<not> is_request e"
  by (induction available as rule: choose_app.induct)
     (auto simp: is_request_def split: option.splits prod.splits)

lemma choose_app_no_upgrade: "\<forall>e\<in>set (fst (choose_app available as)). \<not> is_upgrade e"
  using choose_app_no_request [of available as]
  by (auto simp: is_request_def is_upgrade_def split: effect.splits)

lemma selectAvailableApp_no_upgrade:
  "\<forall>e\<in>set (fst (selectAvailableApp mid env)). \<not> is_upgrade e"
proof (cases "apps_reply env")
  case (NoResponse e)
  then show ?thesis by (simp add: selectAvailableApp_def is_upgrade_def)
next
  case (Response status tx apps)
  let ?av = "filter (\<lambda>a. falsy (appStoreId a) \<and> manifest_id a = mid) apps"
  obtain es l where c: "choose_app ?av (answers env) = (es, l)"
    by (cases "choose_app ?av (answers env)")
  with choose_app_no_upgrade [of ?av "answers env"]
  have "\<forall>e\<in>set es. \<not> is_upgrade e" by simp
  with Response c show ?thesis
    by (auto simp: selectAvailableApp_def is_upgrade_def Let_def)
qed

lemma getApp_no_upgrade: "\<forall>e\<in>set (fst (getApp appId env)). \<not> is_upgrade e"
proof (cases "selectAvailableApp (the (manifest env)) env")
  case (Pair es l)
  with selectAvailableApp_no_upgrade [of "the (manifest env)" env]
  have "\<forall>e\<in>set es. \<not> is_upgrade e" by simp
  with Pair show ?thesis
    by (auto simp: getApp_def is_upgrade_def split: option.splits reply.splits lookup.splits)
qed

subsection \<open>The configuration store\<close>

lemma brackets_to_dots_plain: "CHR ''['' \<notin> set s \<Longrightarrow> brackets_to_dots s = s"
  by (induction s) auto

lemma strip_leading_dot_plain: "CHR ''.'' \<notin> set s \<Longrightarrow> strip_leading_dot s = s"
  by (cases s) (auto simp: strip_leading_dot_def)

lemma plain_key_path:
  assumes "plain_key k"
  shows "js_split CHR ''.'' k = [k]"
    and "js_split CHR ''.'' (strip_leading_dot (brackets_to_dots k)) = [k]"
  using assms
  by (simp_all add: plain_key_def brackets_to_dots_plain strip_leading_dot_plain js_split_none)

lemma config_get_plain:
  assumes "plain_key k"
  shows "config_get k g = (case map_of g k of Some v \<Rightarrow> v | None \<Rightarrow> JUndefined)"
proof -
  from assms have k: "k \<noteq> []" "k \<notin> set object_prototype_names" by (simp_all add: plain_key_def)
  have "map_of g k = None \<longleftrightarrow> k \<notin> fst ` set g" by (simp add: map_of_eq_None_iff)
  with k plain_key_path(2) [OF assms] show ?thesis
    by (auto simp: config_get_def safe_query_def has_property_def get_property_def
             split: option.splits)
qed

lemma config_set_plain: "plain_key k \<Longrightarrow> config_set (Key k) v g = AList.update k v g"
  using plain_key_path(1) [of k] by (simp add: config_set_def safe_set_def plain_key_def)

lemma config_unset_plain: "plain_key k \<Longrightarrow> config_unset [k] g = AList.delete k g"
  using plain_key_path(1) [of k] by (simp add: config_unset_def safe_unset_def plain_key_def)

lemma has_property_plain:
  "plain_key k \<Longrightarrow> has_property k g = (k \<in> fst ` set g)"
  by (simp add: has_property_def plain_key_def)

section \<open>Claims about the inbound demultiplexer\<close>

text \<open>
  Claim C1, as the code has it. Let the inbound byte stream be a concatenation of
  well-formed frames, delivered in chunks cut at arbitrary offsets. Then the demultiplexer
  makes, in frame order, exactly one output call per frame that precedes the first frame
  of payload length zero (per frame, when there is none): the payload goes to stderr when
  the type byte is 2 and to stdout otherwise. The end of the stream adds nothing, and the
  output is the one obtained by delivering the whole stream as a single chunk.
\<close>

theorem demux_routes_frames_any_split:
  assumes "\<forall>f\<in>set fs. wf_frame f" and "concat cs = frames_bytes fs"
  shows "run_demux cs = Inr (map route (takeWhile data_frame fs))
       \<and> run_demux_end cs = Inr (map route (takeWhile data_frame fs))
       \<and> run_demux cs = run_demux [frames_bytes fs]
       \<and> run_demux_end cs = run_demux_end [frames_bytes fs]"
proof -
  have whole: "concat [frames_bytes fs] = frames_bytes fs" by simp
  from run_frames [OF assms] run_frames [OF assms(1) whole] show ?thesis by simp
qed

text \<open>
  The theorem at a stream of two frames, a stdout frame \<open>AB\<close> and a stderr frame \<open>C\<close> with
  non-zero reserved bytes, cut inside both headers and inside the first payload.
\<close>

theorem demux_routes_frames_any_split_witness:
  "wf_frame ([1, 0, 0, 0, 0, 0, 0, 2], [65, 66]) \<and> wf_frame ([2, 9, 9, 9, 0, 0, 0, 1], [67])
   \<and> concat [[1, 0, 0], [0, 0, 0, 0, 2, 65], [66, 2, 9, 9, 9, 0, 0, 0], [1, 67]]
       = frames_bytes [([1, 0, 0, 0, 0, 0, 0, 2], [65, 66]), ([2, 9, 9, 9, 0, 0, 0, 1], [67])]
   \<and> run_demux [[1, 0, 0], [0, 0, 0, 0, 2, 65], [66, 2, 9, 9, 9, 0, 0, 0], [1, 67]]
       = Inr [(Stdout, [65, 66]), (Stderr, [67])]
   \<and> run_demux_end [[1, 0, 0], [0, 0, 0, 0, 2, 65], [66, 2, 9, 9, 9, 0, 0, 0], [1, 67]]
       = Inr [(Stdout, [65, 66]), (Stderr, [67])]"
proof -
  let ?fs = "[([1, 0, 0, 0, 0, 0, 0, 2], [65, 66]), ([2, 9, 9, 9, 0, 0, 0, 1], [67])] :: frame list"
  let ?cs = "[[1, 0, 0], [0, 0, 0, 0, 2, 65], [66, 2, 9, 9, 9, 0, 0, 0], [1, 67]] :: buffer list"
  have wf: "\<forall>f\<in>set ?fs. wf_frame f"
    by (simp add: wf_frame_def readUInt32BE_def)
  have cs: "concat ?cs = frames_bytes ?fs"
    by (simp add: frames_bytes_def)
  from demux_routes_frames_any_split [OF wf cs] wf cs show ?thesis
    by (simp add: route_def readUInt8_def data_frame_def)
qed

text \<open>
  Claim C1 as stated asks for every frame's payload to reach its stream. A well-formed
  frame of length zero followed by a stdout frame carrying the byte 65 refutes it: the
  frames put the byte 65 on stdout, and the demultiplexer writes nothing at all, because
  \<^verbatim>\<open>stream.read(0)\<close> returns null and the loop is left with the zero-length header kept.
\<close>

theorem demux_zero_frame_counterexample:
  "wf_frame ([1, 0, 0, 0, 0, 0, 0, 0], []) \<and> wf_frame ([1, 0, 0, 0, 0, 0, 0, 1], [65])
   \<and> delivered Stdout (map route [([1, 0, 0, 0, 0, 0, 0, 0], []), ([1, 0, 0, 0, 0, 0, 0, 1], [65])])
       = [65]
   \<and> run_demux [frames_bytes [([1, 0, 0, 0, 0, 0, 0, 0], []), ([1, 0, 0, 0, 0, 0, 0, 1], [65])]]
       = Inr []"
  by (simp add: wf_frame_def readUInt32BE_def readUInt8_def delivered_def route_def
      frames_bytes_def run_demux_def demux_init_def on_readable_def push_def stream_read_def
      demux_loop.simps(2))

text \<open>
  Claim C8. When the decoder meets a header that declares a payload of length zero, after
  any number of data frames, decoding stops there: the output calls are those of the data
  frames before it, whatever bytes follow the header, however the stream is cut into
  chunks, and also after the end of the stream. Nothing is written for the zero-length
  frame.
\<close>

theorem demux_zero_length_frame_stops:
  assumes "\<forall>f\<in>set pre. wf_frame f \<and> data_frame f"
    and "length hz = 8" and "readUInt32BE hz 4 = Inr 0"
    and "concat cs = frames_bytes pre @ hz @ rest"
  shows "run_demux cs = Inr (map route pre) \<and> run_demux_end cs = Inr (map route pre)"
  using feed_frames_then_zero [OF assms] on_end_zero_header [OF assms(2,3)]
  by (simp add: run_demux_def run_demux_end_def feed_end_def)

text \<open>
  The theorem at a stderr frame carrying the byte 33, a zero-length header, and a further
  stdout frame, cut inside the zero-length header.
\<close>

theorem demux_zero_length_frame_stops_witness:
  "wf_frame ([2, 0, 0, 0, 0, 0, 0, 1], [33]) \<and> data_frame ([2, 0, 0, 0, 0, 0, 0, 1], [33])
   \<and> length [1, 0, 0, 0, 0, 0, 0, 0 :: byte] = 8
   \<and> readUInt32BE [1, 0, 0, 0, 0, 0, 0, 0] 4 = Inr 0
   \<and> run_demux [[2, 0, 0, 0, 0, 0, 0, 1, 33, 1, 0, 0, 0], [0, 0, 0, 0, 1, 0, 0, 0, 0, 0, 0, 1, 65]]
       = Inr [(Stderr, [33])]
   \<and> run_demux_end [[2, 0, 0, 0, 0, 0, 0, 1, 33, 1, 0, 0, 0], [0, 0, 0, 0, 1, 0, 0, 0, 0, 0, 0, 1, 65]]
       = Inr [(Stderr, [33])]"
proof -
  let ?pre = "[([2, 0, 0, 0, 0, 0, 0, 1], [33])] :: frame list"
  let ?hz = "[1, 0, 0, 0, 0, 0, 0, 0] :: buffer"
  let ?rest = "[1, 0, 0, 0, 0, 0, 0, 1, 65] :: buffer"
  let ?cs = "[[2, 0, 0, 0, 0, 0, 0, 1, 33, 1, 0, 0, 0], [0, 0, 0, 0, 1, 0, 0, 0, 0, 0, 0, 1, 65]] :: buffer list"
  have pre: "\<forall>f\<in>set ?pre. wf_frame f \<and> data_frame f"
    by (simp add: wf_frame_def readUInt32BE_def data_frame_def)
  have len: "length ?hz = 8" by simp
  have zero: "readUInt32BE ?hz 4 = Inr 0" by (simp add: readUInt32BE_def)
  have cs: "concat ?cs = frames_bytes ?pre @ ?hz @ ?rest"
    by (simp add: frames_bytes_def)
  from demux_zero_length_frame_stops [OF pre len zero cs] pre zero show ?thesis
    by (simp add: route_def readUInt8_def)
qed

section \<open>Claims about the outbound framing\<close>

text \<open>
  Claim C3. For every sequence of stdin chunks, each shorter than \<open>2 ^ 32\<close> bytes as every
  Buffer is, followed by the end of stdin, the client makes these socket calls and no
  others: for each chunk in order a write of four bytes and a write of the chunk, where
  the four bytes read back as the big-endian 32-bit length of the chunk; then one write of
  four zero bytes, the zero-length frame. The socket is not ended.
\<close>

theorem outbound_frames_then_eof:
  assumes "\<forall>d\<in>set ds. length d < 2 ^ 32"
  shows "on_stdin (map Data ds @ [End])
           = Inr (concat (map chunk_calls ds) @ [SockWrite [0, 0, 0, 0]])
       \<and> (\<forall>d\<in>set ds. chunk_calls d = [SockWrite (uint32be (length d)), SockWrite d]
              \<and> length (uint32be (length d)) = 4
              \<and> readUInt32BE (uint32be (length d)) 0 = Inr (length d))
       \<and> readUInt32BE [0, 0, 0, 0] 0 = Inr 0
       \<and> SockEnd \<notin> set (concat (map chunk_calls ds) @ [SockWrite [0, 0, 0, 0]])"
proof -
  have "on_stdin (map Data ds @ [End])
      = Inr (concat (map chunk_calls ds) @ [SockWrite [0, 0, 0, 0]])"
    using on_stdin_chunks [OF assms, of "[End]"] by (simp add: on_stdin_end_ok)
  moreover have "\<forall>d\<in>set ds. chunk_calls d = [SockWrite (uint32be (length d)), SockWrite d]
      \<and> length (uint32be (length d)) = 4
      \<and> readUInt32BE (uint32be (length d)) 0 = Inr (length d)"
    using assms by (simp add: chunk_calls_def read_uint32be) (simp add: uint32be_def)
  moreover have "readUInt32BE [0, 0, 0, 0] 0 = Inr 0"
    by (simp add: readUInt32BE_def)
  moreover have "SockEnd \<notin> set (concat (map chunk_calls ds) @ [SockWrite [0, 0, 0, 0]])"
    by (auto simp: chunk_calls_def)
  ultimately show ?thesis by blast
qed

text \<open>
  The theorem at two chunks, of 3 bytes and of 258 bytes (\<open>258 = 1 * 256 + 2\<close>), followed
  by the end of stdin.
\<close>

theorem outbound_frames_then_eof_witness:
  "length [104, 105, 10 :: byte] < 2 ^ 32 \<and> length (replicate 258 (7 :: byte)) < 2 ^ 32
   \<and> on_stdin [Data [104, 105, 10], Data (replicate 258 7), End]
       = Inr [SockWrite [0, 0, 0, 3], SockWrite [104, 105, 10],
              SockWrite [0, 0, 1, 2], SockWrite (replicate 258 7),
              SockWrite [0, 0, 0, 0]]"
proof -
  let ?ds = "[[104, 105, 10], replicate 258 7] :: buffer list"
  have h: "\<forall>d\<in>set ?ds. length d < 2 ^ 32" by simp
  from outbound_frames_then_eof [OF h] show ?thesis
    by (simp add: chunk_calls_def uint32be_def)
qed

section \<open>Claims about the operation pollers\<close>




text \<open>
  Claim C6, as the code has it. In the installation, health and backup pollers, at any
  poll, a transport error stops the polling and is handed to the callback, and a response
  whose status is not 200 stops the polling with an error made of the fixed text, the
  status code and the response text; nothing is done after that reply. The uninstall
  poller ends the command with the transport error, and ends it with success on
  status 404.
\<close>

theorem pollers_fail_fast:
  assumes "status \<noteq> 200"
    and "\<forall>r\<in>set ipre. install_continues r"
    and "\<forall>r\<in>set hpre. health_continues r"
    and "\<forall>r\<in>set bpre. backup_continues r"
    and "\<forall>r\<in>set upre. uninstall_continues r"
  shows "waitForFinishInstallation a w (ipre @ NoResponse e # irest)
           = (fst (waitForFinishInstallation a w ipre), Called (Some (Transport e)))
       \<and> waitForFinishInstallation a w (ipre @ Response status t ib # irest)
           = (fst (waitForFinishInstallation a w ipre),
              Called (Some (Error (red ''Failed to get app.'' @ '' '' @ decimal status @ '' '' @ t))))
       \<and> waitForHealthy a (hpre @ NoResponse e # hrest)
           = (fst (waitForHealthy a hpre), Called (Some (Transport e)))
       \<and> waitForHealthy a (hpre @ Response status t hb # hrest)
           = (fst (waitForHealthy a hpre),
              Called (Some (Error (red ''Failed to get app.'' @ '' '' @ decimal status @ '' '' @ t))))
       \<and> waitForBackupCompletion (bpre @ NoResponse e # brest)
           = (fst (waitForBackupCompletion bpre), Called (Some (Transport e)))
       \<and> waitForBackupCompletion (bpre @ Response status t bb # brest)
           = (fst (waitForBackupCompletion bpre),
              Called (Some (Error (red ''Failed to get backup progress.'' @ '' ''
                                     @ decimal status @ '' '' @ t))))
       \<and> uninstall_waitForFinish a (upre @ NoResponse e # urest)
           = (fst (uninstall_waitForFinish a upre), Exited [AErr (Transport e)])
       \<and> uninstall_waitForFinish a (upre @ Response 404 t ub # urest)
           = (fst (uninstall_waitForFinish a upre)
                @ [Log (util_format (CHR 0x0A # CHR 0x0A # ''App %s successfully uninstalled.'')
                          [bold a])],
              Exited [])"
proof -
  have i1: "waitForFinishInstallation a w (ipre @ NoResponse e # irest)
      = (fst (waitForFinishInstallation a w ipre), Called (Some (Transport e)))"
    using install_prefix [OF assms(2), of a w "NoResponse e" irest "([], Called (Some (Transport e)))"]
    by (simp add: waitForFinishInstallation_def)
  have i2: "waitForFinishInstallation a w (ipre @ Response status t ib # irest)
      = (fst (waitForFinishInstallation a w ipre),
         Called (Some (Error (red ''Failed to get app.'' @ '' '' @ decimal status @ '' '' @ t))))"
    using install_prefix [OF assms(2), of a w "Response status t ib" irest
        "([], Called (Some (Error (failed_to_get_app status t))))"] assms(1)
    by (simp add: waitForFinishInstallation_def failed_to_get_app_eq)
  have h1: "waitForHealthy a (hpre @ NoResponse e # hrest)
      = (fst (waitForHealthy a hpre), Called (Some (Transport e)))"
    using health_prefix [OF assms(3), of a "NoResponse e # hrest"] health_prefix [OF assms(3), of a "[]"]
    by (simp add: waitForHealthy_def)
  have h2: "waitForHealthy a (hpre @ Response status t hb # hrest)
      = (fst (waitForHealthy a hpre),
         Called (Some (Error (red ''Failed to get app.'' @ '' '' @ decimal status @ '' '' @ t))))"
    using health_prefix [OF assms(3), of a "Response status t hb # hrest"]
      health_prefix [OF assms(3), of a "[]"] assms(1)
    by (simp add: waitForHealthy_def failed_to_get_app_eq)
  have b1: "waitForBackupCompletion (bpre @ NoResponse e # brest)
      = (fst (waitForBackupCompletion bpre), Called (Some (Transport e)))"
    using backup_prefix [OF assms(4), of "NoResponse e # brest"] backup_prefix [OF assms(4), of "[]"]
    by (simp add: waitForBackupCompletion_def)
  have b2: "waitForBackupCompletion (bpre @ Response status t bb # brest)
      = (fst (waitForBackupCompletion bpre),
         Called (Some (Error (red ''Failed to get backup progress.'' @ '' ''
                                @ decimal status @ '' '' @ t))))"
    using backup_prefix [OF assms(4), of "Response status t bb # brest"]
      backup_prefix [OF assms(4), of "[]"] assms(1)
    by (simp add: waitForBackupCompletion_def failed_to_get_backup_progress_eq)
  have u1: "uninstall_waitForFinish a (upre @ NoResponse e # urest)
      = (fst (uninstall_waitForFinish a upre), Exited [AErr (Transport e)])"
    using uninstall_prefix [OF assms(5), of a "NoResponse e # urest"]
      uninstall_prefix [OF assms(5), of a "[]"]
    by simp
  have u2: "uninstall_waitForFinish a (upre @ Response 404 t ub # urest)
      = (fst (uninstall_waitForFinish a upre)
           @ [Log (util_format (CHR 0x0A # CHR 0x0A # ''App %s successfully uninstalled.'')
                     [bold a])],
         Exited [])"
    using uninstall_prefix [OF assms(5), of a "Response 404 t ub # urest"]
      uninstall_prefix [OF assms(5), of a "[]"]
    by simp
  from i1 i2 h1 h2 b1 b2 u1 u2 show ?thesis by blast
qed

text \<open>
  The theorem at status 500 with the text \<open>oops\<close>, after one poll that found the
  installation pending, and at an uninstall whose first poll still finds the application
  and whose second poll is answered 404.
\<close>

theorem pollers_fail_fast_witness:
  "(500 :: nat) \<noteq> 200
   \<and> install_continues (Response 200 []
        \<lparr>installationState = ''pending_install'', installationProgress = None, health = None\<rparr>)
   \<and> uninstall_continues (Response 200 [] ())
   \<and> waitForFinishInstallation ''app1'' False
        [Response 200 []
           \<lparr>installationState = ''pending_install'', installationProgress = None, health = None\<rparr>,
         Response 500 ''oops''
           \<lparr>installationState = [], installationProgress = None, health = None\<rparr>]
       = ([Get (app_path ''app1''), Print waiting_label, Timeout 1000, Get (app_path ''app1'')],
          Called (Some (Error (red ''Failed to get app.'' @ '' 500 oops''))))
   \<and> uninstall_waitForFinish ''app1'' [Response 200 [] (), NoResponse ''ECONNRESET'']
       = ([Get (app_path ''app1''), Print ''.'', Timeout 1000, Get (app_path ''app1'')],
          Exited [AErr (Transport ''ECONNRESET'')])"
proof -
  let ?i1 = "Response 200 []
    \<lparr>installationState = ''pending_install'', installationProgress = None, health = None\<rparr>"
  have h1: "(500 :: nat) \<noteq> 200" by simp
  have h2: "\<forall>r\<in>set [?i1]. install_continues r" by (simp add: install_continues_def)
  have h3: "\<forall>r\<in>set ([] :: app_body reply list). health_continues r" by simp
  have h4: "\<forall>r\<in>set ([] :: progress_body reply list). backup_continues r" by simp
  have h5: "\<forall>r\<in>set [Response 200 [] ()]. uninstall_continues r"
    by (simp add: uninstall_continues_def)
  have d: "decimal 500 = ''500''" by (simp add: decimal.simps digit_char_def)
  from pollers_fail_fast [OF h1 h2 h3 h4 h5, of "''app1''" False "''ECONNRESET''" "[]" "''oops''"
      "\<lparr>installationState = [], installationProgress = None, health = None\<rparr>"]
    h1 h2 h5 d
  show ?thesis
    by (simp add: waitForFinishInstallation_def progress_output_def)
qed

text \<open>
  Claim C6 as stated has every poller stop with an error on every status that is not a
  success. The uninstall poller takes status 404 for the end of the uninstallation: it
  logs the success and ends the command without an error.
\<close>

theorem uninstall_404_counterexample:
  "uninstall_waitForFinish ''app1'' [Response 404 ''Not Found'' ()]
   = ([Get (app_path ''app1''),
       Log (CHR 0x0A # CHR 0x0A # ''App '' @ bold ''app1'' @ '' successfully uninstalled.'')],
      Exited [])"
  by (simp add: bold_def)

text \<open>
  Claim C7, as the code has it. The label of a progress string is its second part when
  splitting on commas gives exactly two parts, and its first part otherwise, which is the
  whole string when it holds no comma. A poll whose progress is a string other than the
  previous poll's prints that label, trimmed; a poll whose progress is null while the
  previous one was not (the initial empty string included) prints the waiting label; a
  poll whose progress equals the previous poll's prints no label, and prints a tick only
  when the progress is a non-empty string that does not contain \<open>Creating image\<close>. Every
  poll that keeps the installation poller polling prints what \<open>progress_output\<close> gives
  for the previous and the new progress, and the new progress becomes the previous one.
\<close>

theorem progress_label_printing:
  assumes "CHR '','' \<notin> set a" and "CHR '','' \<notin> set b"
    and "cur \<noteq> Some s" and "cur' \<noteq> None"
    and "install_continues (Response 200 t body)"
  shows "progress_label a = a
       \<and> progress_label (a @ CHR '','' # b) = b
       \<and> progress_label (a @ CHR '','' # b @ CHR '','' # d) = a
       \<and> progress_output cur (Some s)
           = [Print (CHR 0x0A # '' => '' @ cyan (trim (progress_label s)) @ '' '')]
       \<and> progress_output cur' None = [Print waiting_label]
       \<and> progress_output None None = []
       \<and> progress_output (Some s) (Some s)
           = (if s \<noteq> [] \<and> indexOf s ''Creating image'' = - 1 then [Print ''.''] else [])
       \<and> install_checkStatus appId w cur0 (Response 200 t body # rs)
           = after ([Get (app_path appId)] @ progress_output cur0 (installationProgress body)
                    @ [Timeout 1000])
               (install_checkStatus appId w (installationProgress body) rs)"
proof -
  have l: "progress_label a = a" "progress_label (a @ CHR '','' # b) = b"
    "progress_label (a @ CHR '','' # b @ CHR '','' # d) = a"
    using assms(1,2)
    by (simp_all add: progress_label_no_comma progress_label_one_comma progress_label_more_commas)
  have o1: "progress_output cur (Some s)
      = [Print (CHR 0x0A # '' => '' @ cyan (trim (progress_label s)) @ '' '')]"
    using assms(3) by (simp add: progress_output_def)
  have o2: "progress_output cur' None = [Print waiting_label]"
    using assms(4) by (simp add: progress_output_def)
  have o3: "progress_output None None = []"
    by (simp add: progress_output_def)
  have o4: "progress_output (Some s) (Some s)
      = (if s \<noteq> [] \<and> indexOf s ''Creating image'' = - 1 then [Print ''.''] else [])"
    by (simp add: progress_output_def)
  have p: "install_checkStatus appId w cur0 (Response 200 t body # rs)
      = after ([Get (app_path appId)] @ progress_output cur0 (installationProgress body)
               @ [Timeout 1000])
          (install_checkStatus appId w (installationProgress body) rs)"
    using assms(5) by (simp add: install_continues_def)
  from l o1 o2 o3 o4 p show ?thesis by blast
qed

text \<open>
  The theorem at the progress \<open>50, Downloading image\<close>, reported by three polls in a row
  after a first poll with no progress: the waiting label, the label
  \<open>Downloading image\<close> once, then a tick.
\<close>

theorem progress_label_printing_witness:
  "CHR '','' \<notin> set ''50'' \<and> CHR '','' \<notin> set '' Downloading image''
   \<and> Some [] \<noteq> Some ''50, Downloading image'' \<and> Some [] \<noteq> (None :: string option)
   \<and> install_continues (Response 200 []
        \<lparr>installationState = ''pending_install'',
         installationProgress = Some ''50, Downloading image'', health = None\<rparr>)
   \<and> progress_label ''50, Downloading image'' = '' Downloading image''
   \<and> waitForFinishInstallation ''app1'' False
        [Response 200 []
           \<lparr>installationState = ''pending_install'', installationProgress = None, health = None\<rparr>,
         Response 200 []
           \<lparr>installationState = ''pending_install'',
            installationProgress = Some ''50, Downloading image'', health = None\<rparr>,
         Response 200 []
           \<lparr>installationState = ''pending_install'',
            installationProgress = Some ''50, Downloading image'', health = None\<rparr>]
       = ([Get (app_path ''app1''), Print waiting_label, Timeout 1000,
           Get (app_path ''app1''),
           Print (CHR 0x0A # '' => '' @ cyan ''Downloading image'' @ '' ''), Timeout 1000,
           Get (app_path ''app1''), Print ''.'', Timeout 1000,
           Get (app_path ''app1'')],
          Waiting)"
proof -
  let ?body = "\<lparr>installationState = ''pending_install'',
    installationProgress = Some ''50, Downloading image'', health = None\<rparr>"
  have h1: "CHR '','' \<notin> set ''50''" by simp
  have h2: "CHR '','' \<notin> set '' Downloading image''" by simp
  have h3: "Some [] \<noteq> Some ''50, Downloading image''" by simp
  have h4: "Some [] \<noteq> (None :: string option)" by simp
  have h5: "install_continues (Response 200 [] ?body)" by (simp add: install_continues_def)
  from progress_label_printing [OF h1 h2 h3 h4 h5] h5
  show ?thesis
    by (simp add: waitForFinishInstallation_def progress_output_def trim_def js_space_def
        indexOf_def)
qed

text \<open>
  Claim C7 as stated prints the whole string when the split does not give two parts, and
  a tick whenever the progress repeats. The progress \<open>a,b,c\<close> splits into three parts,
  and the label printed is \<open>a\<close>; and a repeated progress \<open>10, Creating image\<close> prints
  nothing.
\<close>

theorem progress_three_parts_counterexample:
  "js_split CHR '','' ''a,b,c'' = [''a'', ''b'', ''c'']
   \<and> progress_label ''a,b,c'' = ''a''
   \<and> progress_output (Some []) (Some ''a,b,c'')
       = [Print (CHR 0x0A # '' => '' @ cyan ''a'' @ '' '')]
   \<and> progress_output (Some ''10, Creating image'') (Some ''10, Creating image'') = []"
  by (simp add: progress_label_def progress_output_def trim_def js_space_def indexOf_def)

text \<open>
  Claim C9. With the health wait requested, as long as no reply has reported the state
  \<open>installed\<close> the flow is the one without a health wait; the reply that reports
  \<open>installed\<close> completes the flow without a health wait, and with one it is followed by
  \<open>waitForHealthy\<close> on the same application path. The health wait prints its banner,
  makes every check one second after the banner or after the previous check, polls again
  on every successful response whose health is not \<open>healthy\<close>, whatever else the body
  holds, and calls back with success on the first response whose health is \<open>healthy\<close>;
  until then it is still polling.
\<close>

theorem health_wait_after_installed:
  assumes "\<forall>r\<in>set rs. \<not> installed_reply r"
    and "\<forall>r\<in>set ipre. install_continues r" and "installationState ib = ''installed''"
    and "\<forall>r\<in>set hpre. health_continues r" and "health hb = Some ''healthy''"
  shows "waitForFinishInstallation a True rs = waitForFinishInstallation a False rs
       \<and> waitForFinishInstallation a False (ipre @ Response 200 t ib # rest)
           = (fst (waitForFinishInstallation a False ipre), Called None)
       \<and> waitForFinishInstallation a True (ipre @ Response 200 t ib # rest)
           = after (fst (waitForFinishInstallation a False ipre)) (waitForHealthy a rest)
       \<and> waitForHealthy a (hpre @ Response 200 t' hb # hrest)
           = ([Print health_banner, Timeout 1000]
                @ concat (map (\<lambda>r. [Get (app_path a), Print ''.'', Timeout 1000]) hpre)
                @ [Get (app_path a)],
              Called None)
       \<and> waitForHealthy a hpre
           = ([Print health_banner, Timeout 1000]
                @ concat (map (\<lambda>r. [Get (app_path a), Print ''.'', Timeout 1000]) hpre)
                @ [Get (app_path a)],
              Waiting)"
proof -
  have c1: "waitForFinishInstallation a True rs = waitForFinishInstallation a False rs"
    using install_flag_irrelevant [OF assms(1)] by (simp add: waitForFinishInstallation_def)
  have "\<And>cur. install_checkStatus a False cur (Response 200 t ib # rest)
      = after [Get (app_path a)] ([], Called None)"
    using assms(3) by simp
  from install_prefix [OF assms(2) this]
  have c2: "waitForFinishInstallation a False (ipre @ Response 200 t ib # rest)
      = (fst (waitForFinishInstallation a False ipre), Called None)"
    by (simp add: waitForFinishInstallation_def)
  have pre: "\<forall>r\<in>set ipre. \<not> installed_reply r"
  proof
    fix r assume "r \<in> set ipre"
    with assms(2) have "install_continues r" by simp
    then show "\<not> installed_reply r"
      by (cases r) (auto simp: install_continues_def installed_reply_def)
  qed
  have "\<And>cur. install_checkStatus a True cur (Response 200 t ib # rest)
      = after [Get (app_path a)] (waitForHealthy a rest)"
    using assms(3) by simp
  from install_prefix [OF assms(2) this] install_flag_irrelevant [OF pre]
  have c3: "waitForFinishInstallation a True (ipre @ Response 200 t ib # rest)
      = after (fst (waitForFinishInstallation a False ipre)) (waitForHealthy a rest)"
    by (simp add: waitForFinishInstallation_def)
  have c4: "waitForHealthy a (hpre @ Response 200 t' hb # hrest)
      = ([Print health_banner, Timeout 1000]
           @ concat (map (\<lambda>r. [Get (app_path a), Print ''.'', Timeout 1000]) hpre)
           @ [Get (app_path a)],
         Called None)"
    using health_prefix [OF assms(4), of a "Response 200 t' hb # hrest"] assms(5)
    by (simp add: waitForHealthy_def tick_def)
  have c5: "waitForHealthy a hpre
      = ([Print health_banner, Timeout 1000]
           @ concat (map (\<lambda>r. [Get (app_path a), Print ''.'', Timeout 1000]) hpre)
           @ [Get (app_path a)],
         Waiting)"
    using health_prefix [OF assms(4), of a "[]"]
    by (simp add: waitForHealthy_def tick_def)
  from c1 c2 c3 c4 c5 show ?thesis by blast
qed

text \<open>
  The theorem at an installation that is pending, then installed, followed by a health
  check that finds no health yet and one that finds the application healthy.
\<close>

theorem health_wait_after_installed_witness:
  "\<not> installed_reply (Response 200 []
        \<lparr>installationState = ''pending_install'', installationProgress = None, health = None\<rparr>)
   \<and> install_continues (Response 200 []
        \<lparr>installationState = ''pending_install'', installationProgress = None, health = None\<rparr>)
   \<and> health_continues (Response 200 []
        \<lparr>installationState = ''installed'', installationProgress = None, health = None\<rparr>)
   \<and> waitForFinishInstallation ''app1'' True
        [Response 200 []
           \<lparr>installationState = ''pending_install'', installationProgress = None, health = None\<rparr>,
         Response 200 []
           \<lparr>installationState = ''installed'', installationProgress = None, health = None\<rparr>,
         Response 200 []
           \<lparr>installationState = ''installed'', installationProgress = None, health = None\<rparr>,
         Response 200 []
           \<lparr>installationState = ''installed'', installationProgress = None,
            health = Some ''healthy''\<rparr>]
       = ([Get (app_path ''app1''), Print waiting_label, Timeout 1000,
           Get (app_path ''app1''),
           Print health_banner, Timeout 1000,
           Get (app_path ''app1''), Print ''.'', Timeout 1000,
           Get (app_path ''app1'')],
          Called None)"
proof -
  let ?p = "Response 200 []
    \<lparr>installationState = ''pending_install'', installationProgress = None, health = None\<rparr>"
  let ?ib = "\<lparr>installationState = ''installed'', installationProgress = None, health = None\<rparr>"
  let ?hb = "\<lparr>installationState = ''installed'', installationProgress = None,
    health = Some ''healthy''\<rparr>"
  have h1: "\<forall>r\<in>set [?p]. \<not> installed_reply r" by (simp add: installed_reply_def)
  have h2: "\<forall>r\<in>set [?p]. install_continues r" by (simp add: install_continues_def)
  have h3: "installationState ?ib = ''installed''" by simp
  have h4: "\<forall>r\<in>set [Response 200 [] ?ib]. health_continues r" by (simp add: health_continues_def)
  have h5: "health ?hb = Some ''healthy''" by simp
  from health_wait_after_installed [OF h1 h2 h3 h4 h5, of "''app1''" "[]"
      "[Response 200 [] ?ib, Response 200 [] ?hb]" "[]" "[]"]
    h1 h2 h4
  show ?thesis
    by (simp add: waitForFinishInstallation_def waitForHealthy_def progress_output_def)
qed

section \<open>Claims about the exec command\<close>

text \<open>
  Claim C4. A plain response to the upgrade request ends the command, and what is printed
  and passed to \<^verbatim>\<open>exit\<close> depends on nothing of the response but its status code: for
  412 the developer-mode notice (CLI mode is disabled, with the settings page where it is
  enabled) and an exit without arguments; for 403 the message that only admins can use the
  feature; for every other status the text of the failed upgrade together with the
  status code. The upgrade request is made once: the lookup before it makes no upgrade
  request, and the handler makes no request at all.
\<close>

theorem upgrade_failure_messages:
  assumes "statusCode r412 = 412" and "statusCode r403 = 403"
    and "statusCode r \<noteq> 412" and "statusCode r \<noteq> 403"
    and "statusCode r1 = statusCode r2"
    and "getApp (opt_app options) env = (es, Found (Some a))"
    and "\<not> ((opt_tty options \<or> cmd = []) \<and> \<not> stdin_isTTY)"
    and "upgrade env = Plain res"
  shows "upgrade_handler endpoint r412
           = ([LogError (red (''CLI mode is disabled. Enable it at https://''
                              @ js_string endpoint @ ''/#/settings.''))],
              Exited [])
       \<and> upgrade_handler endpoint r403
           = ([], Exited [AStr (red ''Only admins can use this feature.'')])
       \<and> upgrade_handler endpoint r
           = ([], Exited [AStr ''Could not upgrade connection to tcp. http status:'',
                          ANum (statusCode r)])
       \<and> upgrade_handler endpoint r1 = upgrade_handler endpoint r2
       \<and> (\<forall>e\<in>set (fst (upgrade_handler endpoint r1)). \<not> is_request e)
       \<and> exec cmd options stdin_isTTY env
           = after (es @ [Upgrade (app_id a) (if cmd = [] then [''/bin/bash''] else cmd)
                            (cmd = [] \<or> opt_tty options)])
               (upgrade_handler (apiEndpoint env) res)
       \<and> (\<forall>e\<in>set es. \<not> is_upgrade e)"
proof -
  have a: "upgrade_handler endpoint r412
      = ([LogError (red (''CLI mode is disabled. Enable it at https://''
                         @ js_string endpoint @ ''/#/settings.''))],
         Exited [])"
    using assms(1) by (simp add: upgrade_handler_def developer_mode_notice)
  have b: "upgrade_handler endpoint r403
      = ([], Exited [AStr (red ''Only admins can use this feature.'')])"
    using assms(2) by (simp add: upgrade_handler_def)
  have c: "upgrade_handler endpoint r
      = ([], Exited [AStr ''Could not upgrade connection to tcp. http status:'',
                     ANum (statusCode r)])"
    using assms(3,4) by (simp add: upgrade_handler_def)
  have d: "upgrade_handler endpoint r1 = upgrade_handler endpoint r2"
    using assms(5) by (simp add: upgrade_handler_def)
  have e: "\<forall>e\<in>set (fst (upgrade_handler endpoint r1)). \<not> is_request e"
    by (simp add: upgrade_handler_def developer_mode_notice is_request_def)
  have f: "exec cmd options stdin_isTTY env
      = after (es @ [Upgrade (app_id a) (if cmd = [] then [''/bin/bash''] else cmd)
                       (cmd = [] \<or> opt_tty options)])
          (upgrade_handler (apiEndpoint env) res)"
    using assms(6,7,8) by (auto simp: exec_def Let_def)
  have g: "\<forall>e\<in>set es. \<not> is_upgrade e"
    using getApp_no_upgrade [of "opt_app options" env] assms(6) by simp
  from a b c d e f g show ?thesis by blast
qed

text \<open>
  The theorem at the command \<open>ls\<close> on the application \<open>app1\<close>, without TTY, whose
  upgrade request is answered 500, and at responses with the statuses 412 and 403.
\<close>

theorem upgrade_failure_messages_witness:
  "statusCode \<lparr>statusCode = 412, statusMessage = ''Precondition Failed'', headers = []\<rparr> = 412
   \<and> statusCode \<lparr>statusCode = 403, statusMessage = ''Forbidden'', headers = []\<rparr> = 403
   \<and> statusCode \<lparr>statusCode = 500, statusMessage = [], headers = []\<rparr> \<noteq> 412
   \<and> statusCode \<lparr>statusCode = 500, statusMessage = [], headers = []\<rparr> \<noteq> 403
   \<and> upgrade_handler (Some ''my.example.com'')
        \<lparr>statusCode = 412, statusMessage = ''Precondition Failed'', headers = []\<rparr>
       = ([LogError (red ''CLI mode is disabled. Enable it at https://my.example.com/#/settings.'')],
          Exited [])
   \<and> exec [''ls''] \<lparr>opt_app = Some ''app1'', opt_tty = False\<rparr> False
        \<lparr>locateManifest = None, manifest = None,
         app_reply = Response 200 []
           \<lparr>app_id = ''app1'', location = ''blog'', appStoreId = None, manifest_id = ''org.blog''\<rparr>,
         apps_reply = NoResponse [], answers = [], apiEndpoint = Some ''my.example.com'',
         upgrade = Plain \<lparr>statusCode = 500, statusMessage = [], headers = []\<rparr>\<rparr>
       = ([Get (app_path ''app1''), Upgrade ''app1'' [''ls''] False],
          Exited [AStr ''Could not upgrade connection to tcp. http status:'', ANum 500])"
proof -
  let ?r412 = "\<lparr>statusCode = 412, statusMessage = ''Precondition Failed'', headers = []\<rparr>"
  let ?r403 = "\<lparr>statusCode = 403, statusMessage = ''Forbidden'', headers = []\<rparr>"
  let ?r = "\<lparr>statusCode = 500, statusMessage = [], headers = []\<rparr>"
  let ?a = "\<lparr>app_id = ''app1'', location = ''blog'', appStoreId = None, manifest_id = ''org.blog''\<rparr>"
  let ?env = "\<lparr>locateManifest = None, manifest = None, app_reply = Response 200 [] ?a,
    apps_reply = NoResponse [], answers = [], apiEndpoint = Some ''my.example.com'',
    upgrade = Plain ?r\<rparr>"
  let ?options = "\<lparr>opt_app = Some ''app1'', opt_tty = False\<rparr>"
  have h1: "statusCode ?r412 = 412" by simp
  have h2: "statusCode ?r403 = 403" by simp
  have h3: "statusCode ?r \<noteq> 412" by simp
  have h4: "statusCode ?r \<noteq> 403" by simp
  have h5: "statusCode ?r = statusCode ?r" by simp
  have h6: "getApp (opt_app ?options) ?env = ([Get (app_path ''app1'')], Found (Some ?a))"
    by (simp add: getApp_def falsy_def js_string_def)
  have h7: "\<not> ((opt_tty ?options \<or> [''ls''] = []) \<and> \<not> False)" by simp
  have h8: "upgrade ?env = Plain ?r" by simp
  from upgrade_failure_messages [OF h1 h2 h3 h4 h5 h6 h7 h8, of "Some ''my.example.com''"]
  show ?thesis
    by (simp add: js_string_def)
qed

text \<open>
  Claim C5, as the code has it. When TTY mode is requested, or forced by an empty
  command, and stdin is not a terminal, \<^verbatim>\<open>exec\<close> makes no upgrade request and does not
  get a socket. The check comes after the application lookup: when the lookup has found
  the application, the command ends there with the error \<open>stdin is not tty\<close>, having
  done what the lookup did and nothing else.
\<close>

theorem exec_tty_check:
  assumes "opt_tty options \<or> cmd = []" and "\<not> stdin_isTTY"
    and "getApp (opt_app options) env' = (es, Found (Some a))"
  shows "(\<forall>e\<in>set (fst (exec cmd options stdin_isTTY env)). \<not> is_upgrade e)
       \<and> snd (exec cmd options stdin_isTTY env) \<noteq> Upgraded True
       \<and> snd (exec cmd options stdin_isTTY env) \<noteq> Upgraded False
       \<and> exec cmd options stdin_isTTY env' = (es, Exited [AStr ''stdin is not tty''])"
proof -
  obtain es0 l where g: "getApp (opt_app options) env = (es0, l)"
    by (cases "getApp (opt_app options) env")
  with getApp_no_upgrade [of "opt_app options" env]
  have n: "\<forall>e\<in>set es0. \<not> is_upgrade e" by simp
  have "exec cmd options stdin_isTTY env
      = (es0, case l of LookupError e \<Rightarrow> Exited [e] | LookupExit args \<Rightarrow> Exited args
              | LookupWaiting \<Rightarrow> Waiting
              | Found None \<Rightarrow> Exited [AStr NO_APP_FOUND_ERROR_STRING]
              | Found (Some a) \<Rightarrow> Exited [AStr ''stdin is not tty''])"
    using assms(1,2) g by (auto simp: exec_def Let_def split: lookup.splits option.splits)
  with n have a: "\<forall>e\<in>set (fst (exec cmd options stdin_isTTY env)). \<not> is_upgrade e"
    and b: "snd (exec cmd options stdin_isTTY env) \<noteq> Upgraded True"
    and c: "snd (exec cmd options stdin_isTTY env) \<noteq> Upgraded False"
    by (auto split: lookup.splits option.splits)
  have d: "exec cmd options stdin_isTTY env' = (es, Exited [AStr ''stdin is not tty''])"
    using assms by (auto simp: exec_def Let_def)
  from a b c d show ?thesis by blast
qed

text \<open>
  The theorem at \<^verbatim>\<open>exec\<close> with an empty command on the application \<open>app1\<close>, with stdin
  a pipe.
\<close>

theorem exec_tty_check_witness:
  "(opt_tty \<lparr>opt_app = Some ''app1'', opt_tty = False\<rparr> \<or> ([] :: string list) = [])
   \<and> \<not> False
   \<and> exec [] \<lparr>opt_app = Some ''app1'', opt_tty = False\<rparr> False
        \<lparr>locateManifest = None, manifest = None,
         app_reply = Response 200 []
           \<lparr>app_id = ''app1'', location = ''blog'', appStoreId = None, manifest_id = ''org.blog''\<rparr>,
         apps_reply = NoResponse [], answers = [], apiEndpoint = Some ''my.example.com'',
         upgrade = Switched\<rparr>
       = ([Get (app_path ''app1'')], Exited [AStr ''stdin is not tty''])"
proof -
  let ?a = "\<lparr>app_id = ''app1'', location = ''blog'', appStoreId = None, manifest_id = ''org.blog''\<rparr>"
  let ?env = "\<lparr>locateManifest = None, manifest = None, app_reply = Response 200 [] ?a,
    apps_reply = NoResponse [], answers = [], apiEndpoint = Some ''my.example.com'',
    upgrade = Switched\<rparr>"
  let ?options = "\<lparr>opt_app = Some ''app1'', opt_tty = False\<rparr>"
  have h1: "opt_tty ?options \<or> ([] :: string list) = []" by simp
  have h2: "\<not> False" by simp
  have h3: "getApp (opt_app ?options) ?env = ([Get (app_path ''app1'')], Found (Some ?a))"
    by (simp add: getApp_def falsy_def js_string_def)
  from exec_tty_check [OF h1 h2 h3, of ?env] show ?thesis by simp
qed

text \<open>
  Claim C5 as stated has the command fail before any network request is attempted. With
  TTY mode requested for the application \<open>app1\<close> and stdin a pipe, the lookup's GET of
  the application is made before the command ends with \<open>stdin is not tty\<close>.
\<close>

theorem exec_lookup_before_tty_check_counterexample:
  "exec [''ls''] \<lparr>opt_app = Some ''app1'', opt_tty = True\<rparr> False
     \<lparr>locateManifest = None, manifest = None,
      app_reply = Response 200 []
        \<lparr>app_id = ''app1'', location = ''blog'', appStoreId = None, manifest_id = ''org.blog''\<rparr>,
      apps_reply = NoResponse [], answers = [], apiEndpoint = Some ''my.example.com'',
      upgrade = Switched\<rparr>
   = ([Get (app_path ''app1'')], Exited [AStr ''stdin is not tty''])
   \<and> is_request (Get (app_path ''app1''))"
  by (simp add: exec_def getApp_def falsy_def js_string_def is_request_def)

section \<open>Claims about the configuration store\<close>

text \<open>
  Claim C10, as the code has it. For every plain key \<open>k\<close> and every value \<open>v\<close>:
  \<^verbatim>\<open>get(k)\<close> after \<^verbatim>\<open>set(k, v)\<close> returns \<open>v\<close>, and \<^verbatim>\<open>has(k)\<close> is then true; after
  \<^verbatim>\<open>unset(k)\<close>, \<^verbatim>\<open>has(k)\<close> is false and \<^verbatim>\<open>get(k)\<close> returns \<^verbatim>\<open>undefined\<close>; and
  \<^verbatim>\<open>set(k, v)\<close> leaves what \<^verbatim>\<open>get\<close> and \<^verbatim>\<open>has\<close> give for every other plain key
  unchanged.
\<close>

theorem config_store_laws:
  assumes "plain_key k" and "plain_key k'" and "k' \<noteq> k"
  shows "config_get k (config_set (Key k) v g) = v
       \<and> config_has [k] (config_set (Key k) v g)
       \<and> \<not> config_has [k] (config_unset [k] g)
       \<and> config_get k (config_unset [k] g) = JUndefined
       \<and> config_get k' (config_set (Key k) v g) = config_get k' g
       \<and> config_has [k'] (config_set (Key k) v g) = config_has [k'] g"
proof -
  have a: "config_get k (config_set (Key k) v g) = v"
    using assms(1) by (simp add: config_get_plain config_set_plain update_conv')
  have b: "config_has [k] (config_set (Key k) v g)"
    using assms(1) by (simp add: has_property_plain config_set_plain dom_update)
  have c: "\<not> config_has [k] (config_unset [k] g)"
    using assms(1) by (simp add: has_property_plain config_unset_plain delete_notin_dom)
  have d: "config_get k (config_unset [k] g) = JUndefined"
    using assms(1) by (simp add: config_get_plain config_unset_plain delete_conv')
  have e: "config_get k' (config_set (Key k) v g) = config_get k' g"
    using assms by (simp add: config_get_plain config_set_plain update_conv')
  have f: "config_has [k'] (config_set (Key k) v g) = config_has [k'] g"
    using assms by (simp add: has_property_plain config_set_plain dom_update)
  from a b c d e f show ?thesis by blast
qed

text \<open>
  The theorem at the keys \<open>token\<close> and \<open>cloudron\<close> of a configuration that holds the
  application store's origin and a Cloudron.
\<close>

theorem config_store_laws_witness:
  "plain_key ''token'' \<and> plain_key ''cloudron'' \<and> ''cloudron'' \<noteq> ''token''
   \<and> config_set (Key ''token'') (JStr ''abc'')
        [(''appStoreOrigin'', JStr ''https://api.cloudron.io''), (''cloudron'', JStr ''my.example.com'')]
       = [(''appStoreOrigin'', JStr ''https://api.cloudron.io''), (''cloudron'', JStr ''my.example.com''),
          (''token'', JStr ''abc'')]
   \<and> config_get ''token''
        (config_set (Key ''token'') (JStr ''abc'')
           [(''appStoreOrigin'', JStr ''https://api.cloudron.io''),
            (''cloudron'', JStr ''my.example.com'')])
       = JStr ''abc''
   \<and> config_get ''cloudron''
        (config_set (Key ''token'') (JStr ''abc'')
           [(''appStoreOrigin'', JStr ''https://api.cloudron.io''),
            (''cloudron'', JStr ''my.example.com'')])
       = JStr ''my.example.com''"
proof -
  have h1: "plain_key ''token''" by (simp add: plain_key_def object_prototype_names_def)
  have h2: "plain_key ''cloudron''" by (simp add: plain_key_def object_prototype_names_def)
  have h3: "''cloudron'' \<noteq> ''token''" by simp
  from config_store_laws [OF h1 h2 h3, of "JStr ''abc''"
      "[(''appStoreOrigin'', JStr ''https://api.cloudron.io''), (''cloudron'', JStr ''my.example.com'')]"]
    h1 h2
  show ?thesis
    by (simp add: config_set_plain config_get_plain)
qed

text \<open>
  Claim C10 as stated holds for every key. Two keys refute it on the empty configuration.
  For the key \<open>constructor\<close>, which every object inherits, \<^verbatim>\<open>has\<close> is still true after
  \<^verbatim>\<open>unset\<close>: \<^verbatim>\<open>has\<close> asks \<^verbatim>\<open>key in gConfig\<close>, and \<^verbatim>\<open>delete\<close> removes own properties
  only. For the key \<open>a.b\<close>, \<^verbatim>\<open>set\<close> follows the path and stores an object under \<open>a\<close>,
  so \<^verbatim>\<open>has\<close> finds no property \<open>a.b\<close> afterwards.
\<close>

theorem config_inherited_key_counterexample:
  "config_unset [''constructor''] [] = []
   \<and> config_has [''constructor''] (config_unset [''constructor''] [])
   \<and> config_set (Key ''a.b'') (JStr ''x'') [] = [(''a'', JObj [(''b'', JStr ''x'')])]
   \<and> \<not> config_has [''a.b''] (config_set (Key ''a.b'') (JStr ''x'') [])"
  by (simp add: config_unset_def safe_unset_def config_set_def safe_set_def child_object_def
      has_property_def object_prototype_names_def)

end
